theory Spec2Isabelle
  imports Main
begin

section \<open>JavaScript values\<close>

text \<open>
  The values that reach the library. A function object carries the two properties the
  library reads or defines (\<open>length\<close>, \<open>name\<close>) and its code. The code of a
  function produced by \<open>wrap\<close> or \<open>wrapParam\<close> is the closure with the variables it
  captured: \<open>fn\<close>, \<open>resIndex\<close> and \<open>nextIndex\<close> for \<open>asyncWrapped\<close>, \<open>fn\<close> for
  \<open>wrappedParamMiddleware\<close> (the body of either calls \<open>fn.apply (null, args)\<close>).
  The methods that \<open>addAsync\<close> installs are closures too: \<open>routeAsync\<close> captures
  nothing, \<open>paramAsync\<close> the object \<open>app\<close> (its address), the generic method \<open>app\<close>
  and \<open>method\<close>. A closure is identified with its code and what it captured. Every
  other function (a user's handler, a function of the framework) is opaque and told
  apart by a number. \<open>VResponse\<close> is the response
  object of the request being handled, the one object whose \<open>headersSent\<close> property
  is defined; \<open>VObject\<close> is any other object. \<open>VThenable\<close> is a thenable that is no
  native promise (an object with a \<open>then\<close> method, as promise libraries make them): a
  pending asynchronous computation, given with how it will settle.
\<close>

datatype error = TypeError string | Error string

datatype fate = Fulfils | RejectsWith error | StaysPending

type_synonym addr = nat

datatype func = FunctionObject (fn_length: nat) (fn_name: string) (fn_code: code)
and code =
    OpaqueCode nat
  | AsyncWrappedCode func nat nat
  | WrappedParamCode func
  | RouteAsyncCode
  | ParamAsyncCode addr
  | MethodAsyncCode addr string

datatype val =
    VUndefined
  | VNull
  | VBool bool
  | VNumber int
  | VBigInt int
  | VStr string
  | VSymbol string
  | VRegExp string
  | VObject nat
  | VResponse
  | VThenable fate
  | VError error
  | VArray "val list"
  | VFunction func

text \<open>A property name as the engine quotes it in a message, between apostrophes.\<close>

definition quoted :: "string \<Rightarrow> string" where
  "quoted name = CHR 0x27 # name @ [CHR 0x27]"

text \<open>
  The \<open>TypeError\<close> of \<open>f.apply (...)\<close> when the value of the expression \<open>f\<close> is no
  function: reading \<open>apply\<close> fails on \<open>undefined\<close> and \<open>null\<close>, calling it fails
  on the rest.
\<close>

definition apply_error :: "string \<Rightarrow> val \<Rightarrow> error" where
  "apply_error expr v =
     TypeError
       (if v = VUndefined
        then ''Cannot read properties of undefined (reading '' @ quoted ''apply'' @ '')''
        else if v = VNull
        then ''Cannot read properties of null (reading '' @ quoted ''apply'' @ '')''
        else expr @ ''.apply is not a function'')"

text \<open>The \<open>typeof\<close> operator.\<close>

fun typeof :: "val \<Rightarrow> string" where
  "typeof VUndefined = ''undefined''"
| "typeof VNull = ''object''"
| "typeof (VBool b) = ''boolean''"
| "typeof (VNumber n) = ''number''"
| "typeof (VBigInt n) = ''bigint''"
| "typeof (VStr s) = ''string''"
| "typeof (VSymbol s) = ''symbol''"
| "typeof (VRegExp r) = ''object''"
| "typeof (VObject n) = ''object''"
| "typeof VResponse = ''object''"
| "typeof (VThenable t) = ''object''"
| "typeof (VError e) = ''object''"
| "typeof (VArray xs) = ''object''"
| "typeof (VFunction f) = ''function''"



section \<open>The handler wrappers: \<open>wrap\<close> and \<open>wrapParam\<close>\<close>

text \<open>
  \<open>wrap (fn)\<close> reads \<open>fn.length\<close>, computes \<open>resIndex = 1 + isErrorHandler\<close> and
  \<open>nextIndex = 2 + isErrorHandler\<close> (the boolean counts as 0 or 1), and returns the
  closure \<open>asyncWrapped\<close> with its \<open>length\<close> and \<open>name\<close> redefined. Its parameter is
  documented as a function, and it is a \<open>func\<close> here.
\<close>

definition wrap :: "func \<Rightarrow> func" where
  "wrap fn =
     (let isErrorHandler = (fn_length fn = 4);
          resIndex = 1 + (if isErrorHandler then 1 else 0);
          nextIndex = 2 + (if isErrorHandler then 1 else 0)
      in FunctionObject (if isErrorHandler then 4 else 3)
           (if isErrorHandler then ''wrappedErrorHandler'' else ''wrappedMiddleware'')
           (AsyncWrappedCode fn resIndex nextIndex))"

text \<open>
  \<open>wrapParam (fn)\<close> returns the closure \<open>wrappedParamMiddleware\<close>, named so by
  its declaration, with \<open>length\<close> redefined to 5. Its parameter is documented as a
  function too.
\<close>

definition wrapParam :: "func \<Rightarrow> func" where
  "wrapParam fn = FunctionObject 5 ''wrappedParamMiddleware'' (WrappedParamCode fn)"

section \<open>The argument classifier: \<open>_wrapArg\<close>\<close>

definition unexpected_kind :: "val \<Rightarrow> error" where
  "unexpected_kind arg =
     TypeError (''An unexpected argument kind ('' @ typeof arg @
       '') has been given to the router. See <https://expressjs.com/en/api.html#app.METHOD>'')"

text \<open>
  \<open>_wrapArg\<close> tests, in this order: string, function, array, regular expression;
  anything else throws. \<open>arg.map (_wrapArg)\<close> visits the elements in order and the
  first throw ends it, which \<open>wrapArgs\<close> writes out. The same \<open>wrapArgs\<close> is
  \<open>map.call (arguments, _wrapArg)\<close> of the generated methods.
\<close>

fun wrapArg :: "val \<Rightarrow> error + val"
  and wrapArgs :: "val list \<Rightarrow> error + val list" where
  "wrapArg (VStr s) = Inr (VStr s)"
| "wrapArg (VFunction f) = Inr (VFunction (wrap f))"
| "wrapArg (VArray xs) =
     (case wrapArgs xs of Inl e \<Rightarrow> Inl e | Inr ys \<Rightarrow> Inr (VArray ys))"
| "wrapArg (VRegExp r) = Inr (VRegExp r)"
| "wrapArg VUndefined = Inl (unexpected_kind VUndefined)"
| "wrapArg VNull = Inl (unexpected_kind VNull)"
| "wrapArg (VBool b) = Inl (unexpected_kind (VBool b))"
| "wrapArg (VNumber n) = Inl (unexpected_kind (VNumber n))"
| "wrapArg (VBigInt n) = Inl (unexpected_kind (VBigInt n))"
| "wrapArg (VSymbol s) = Inl (unexpected_kind (VSymbol s))"
| "wrapArg (VObject n) = Inl (unexpected_kind (VObject n))"
| "wrapArg VResponse = Inl (unexpected_kind VResponse)"
| "wrapArg (VThenable t) = Inl (unexpected_kind (VThenable t))"
| "wrapArg (VError e) = Inl (unexpected_kind (VError e))"
| "wrapArgs [] = Inr []"
| "wrapArgs (x # xs) =
     (case wrapArg x of
        Inl e \<Rightarrow> Inl e
      | Inr y \<Rightarrow> (case wrapArgs xs of Inl e \<Rightarrow> Inl e | Inr ys \<Rightarrow> Inr (y # ys)))"


section \<open>The once-guard\<close>

text \<open>
  A JavaScript function over a state \<open>'st\<close>: called with \<open>this\<close> and its arguments it
  throws (\<open>Inl\<close>) or returns (\<open>Inr\<close>) a value, and leaves a new state.
\<close>

type_synonym 'st jsfun = "val \<Rightarrow> val list \<Rightarrow> 'st \<Rightarrow> (val + val) \<times> 'st"

text \<open>
  \<open>once (fn)\<close> allocates \<open>called = false\<close> and returns \<open>onceWrapped\<close>. The state
  of the closure is the flag, paired here with the state \<open>fn\<close> works on. The flag is set
  before \<open>fn.apply (this, arguments)\<close>, whose value is dropped and whose exception is
  not caught.
\<close>

definition onceWrapped :: "'st jsfun \<Rightarrow> (bool \<times> 'st) jsfun" where
  "onceWrapped fn this arguments cs =
     (if fst cs then (Inr VUndefined, cs)
      else (case fn this arguments (snd cs) of
              (Inl e, st) \<Rightarrow> (Inl e, (True, st))
            | (Inr v, st) \<Rightarrow> (Inr VUndefined, (True, st))))"

definition once :: "'st jsfun \<Rightarrow> 'st \<Rightarrow> (bool \<times> 'st) jsfun \<times> (bool \<times> 'st)" where
  "once fn st = (onceWrapped fn, (False, st))"

text \<open>A sequence of calls of one function, each with its own \<open>this\<close> and arguments.\<close>

fun call_seq :: "'st jsfun \<Rightarrow> (val \<times> val list) list \<Rightarrow> 'st \<Rightarrow> (val + val) list \<times> 'st" where
  "call_seq f [] st = ([], st)"
| "call_seq f (c # cs) st =
     (case f (fst c) (snd c) st of
        (r, st') \<Rightarrow> (case call_seq f cs st' of (rs, st'') \<Rightarrow> (r # rs, st'')))"

section \<open>One invocation of a wrapped handler\<close>

subsection \<open>The world around the wrapper\<close>

text \<open>
  The framework and the user's code are opaque. What calling a function does is given
  by a \<open>world\<close>: for a callee, its \<open>this\<close> and its arguments, whether the call throws
  and whether the response has been sent when it returns (the continuation of the
  framework runs the next handlers, which may answer the request). Every call that
  reaches a function is recorded in \<open>calls\<close>, oldest first; \<open>guard_log\<close> records every
  call of the guarded continuation, fired or not, with who made it.
\<close>

record effect =
  throws :: "val option"
  sends :: bool

type_synonym world = "val \<Rightarrow> val \<Rightarrow> val list \<Rightarrow> effect"

datatype origin = ByHandler | ByWrapper

record state =
  headersSent :: bool
  calls :: "(val \<times> val \<times> val list) list"
  guard_log :: "(origin \<times> val \<times> val list) list"

text \<open>
  \<open>fn.apply (this, arguments)\<close>: a \<open>TypeError\<close> when \<open>fn\<close> is no function. The value
  the callee returns is never used by the library, and is not modelled.
\<close>

definition not_callable :: "val \<Rightarrow> val" where
  "not_callable fn = VError (apply_error ''fn'' fn)"

definition apply_fn :: "world \<Rightarrow> val \<Rightarrow> state jsfun" where
  "apply_fn W fn this arguments st =
     (case fn of
        VFunction f \<Rightarrow>
          ((case throws (W fn this arguments) of Some e \<Rightarrow> Inl e | None \<Rightarrow> Inr VUndefined),
           st\<lparr>headersSent := headersSent st \<or> sends (W fn this arguments),
              calls := calls st @ [(fn, this, arguments)]\<rparr>)
      | _ \<Rightarrow> (Inl (not_callable fn), st))"

subsection \<open>The argument list and the guard\<close>

text \<open>
  An entry of the \<open>arguments\<close> object after \<open>arguments[nextIndex] = once (arguments[nextIndex])\<close>:
  a value as the caller gave it, or the closure \<open>onceWrapped\<close> over the value that
  stood there. One invocation creates one guard, whose flag \<open>called\<close> is the first
  component of the invocation's state.
\<close>

datatype slot = Plain val | OnceWrapped val

text \<open>\<open>xs[i]\<close>: \<open>undefined\<close> beyond the length.\<close>

definition arg_at :: "val list \<Rightarrow> nat \<Rightarrow> val" where
  "arg_at xs i = (if i < length xs then xs ! i else VUndefined)"

definition slot_at :: "slot list \<Rightarrow> nat \<Rightarrow> slot" where
  "slot_at xs i = (if i < length xs then xs ! i else Plain VUndefined)"

text \<open>
  The assignment defines the property \<open>nextIndex\<close> of \<open>arguments\<close> and leaves its
  \<open>length\<close> alone, so \<open>fn.apply (null, args)\<close> hands the handler the guard only when
  \<open>nextIndex\<close> is below the length: the list below is what the handler receives.
  The variable \<open>next\<close> holds the guard in either case.
\<close>

definition install_guard :: "nat \<Rightarrow> val list \<Rightarrow> slot \<times> slot list" where
  "install_guard nextIndex arguments =
     (let next = OnceWrapped (arg_at arguments nextIndex)
      in (next, (map Plain arguments)[nextIndex := next]))"

definition log_guard :: "origin \<Rightarrow> val \<Rightarrow> val list \<Rightarrow> state \<Rightarrow> state" where
  "log_guard who this arguments st =
     st\<lparr>guard_log := guard_log st @ [(who, this, arguments)]\<rparr>"

definition call_slot :: "world \<Rightarrow> origin \<Rightarrow> slot \<Rightarrow> (bool \<times> state) jsfun" where
  "call_slot W who sl this arguments cs =
     (case sl of
        Plain v \<Rightarrow>
          (case apply_fn W v this arguments (snd cs) of (r, st) \<Rightarrow> (r, (fst cs, st)))
      | OnceWrapped fn \<Rightarrow>
          onceWrapped (apply_fn W fn) this arguments
            (fst cs, log_guard who this arguments (snd cs)))"

subsection \<open>What a handler does\<close>

text \<open>
  One run of the user's handler, as the wrapper can observe it. The handler reaches
  the continuation through the arguments it is given: \<open>CallArg i this args\<close> is a call
  of its \<open>i\<close>-th argument. \<open>Send\<close> is the response being sent, by the handler or by
  anyone else in the meantime. The handler then returns a value that is no promise,
  throws, or returns a promise; before the promise settles (if it ever does) more
  events happen. A promise is what \<open>isPromise\<close> of \<open>node:util/types\<close> accepts, a
  native promise: \<open>ReturnsPromise\<close> is the case in which \<open>isPromise (promise)\<close> is
  true. Any other value is returned by \<open>Returns\<close>, a thenable of another make
  (\<open>VThenable\<close>) included: the test is false on it, whatever asynchronous
  computation it stands for, and what happens until it settles is among the
  \<open>late_events\<close>. \<open>late_events\<close> are what callbacks left behind by the handler do after
  the wrapper has finished. How the handler reacts to what its own calls return or
  throw is part of the run.
\<close>

datatype event = CallArg nat val "val list" | Send

datatype settlement = Resolves val | Rejects val | Never

datatype completion = Returns val | Throws val | ReturnsPromise "event list" settlement

record run =
  sync_events :: "event list"
  completion :: completion
  late_events :: "event list"

fun do_event :: "world \<Rightarrow> slot list \<Rightarrow> event \<Rightarrow> bool \<times> state \<Rightarrow> bool \<times> state" where
  "do_event W args (CallArg i this arguments) cs =
     snd (call_slot W ByHandler (slot_at args i) this arguments cs)"
| "do_event W args Send cs = (fst cs, (snd cs)\<lparr>headersSent := True\<rparr>)"

fun run_events :: "world \<Rightarrow> slot list \<Rightarrow> event list \<Rightarrow> bool \<times> state \<Rightarrow> bool \<times> state" where
  "run_events W args [] cs = cs"
| "run_events W args (ev # evs) cs = run_events W args evs (do_event W args ev cs)"

subsection \<open>\<open>_mainWrap\<close>\<close>

text \<open>
  \<open>res.headersSent\<close>, as the test \<open>!res.headersSent\<close> reads it: the flag of the
  response object, a \<open>TypeError\<close> on \<open>undefined\<close> and \<open>null\<close>, and \<open>undefined\<close>
  (falsy) on a value without the property.
\<close>

fun headersSent_of :: "slot \<Rightarrow> state \<Rightarrow> val + bool" where
  "headersSent_of (Plain VResponse) st = Inr (headersSent st)"
| "headersSent_of (Plain VUndefined) st =
     Inl (VError (TypeError
       (''Cannot read properties of undefined (reading '' @ quoted ''headersSent'' @ '')'')))"
| "headersSent_of (Plain VNull) st =
     Inl (VError (TypeError
       (''Cannot read properties of null (reading '' @ quoted ''headersSent'' @ '')'')))"
| "headersSent_of sl st = Inr False"

text \<open>
  The outcome of the promise that the asynchronous function \<open>_mainWrap\<close> returns and
  that nobody awaits: fulfilled, rejected (an unhandled rejection), or never settled
  because the handler's promise never settles.
\<close>

datatype outcome = Fulfilled | Rejected val | Suspended

text \<open>The \<open>catch (err)\<close> block: nothing catches what it throws.\<close>

definition catch_block ::
  "world \<Rightarrow> slot \<Rightarrow> slot \<Rightarrow> val \<Rightarrow> bool \<times> state \<Rightarrow> outcome \<times> (bool \<times> state)" where
  "catch_block W res next err cs =
     (case headersSent_of res (snd cs) of
        Inl e \<Rightarrow> (Rejected e, cs)
      | Inr sent \<Rightarrow>
          if \<not> sent then
            (case call_slot W ByWrapper next VUndefined [err] cs of
               (Inl e, cs') \<Rightarrow> (Rejected e, cs')
             | (Inr v, cs') \<Rightarrow> (Fulfilled, cs'))
          else (Fulfilled, cs))"

text \<open>
  The \<open>try\<close> block: the handler runs; a promise is awaited; on fulfilment \<open>next ()\<close>
  is called unless the headers are sent. The wrapper calls \<open>next\<close> as a plain
  function, so \<open>this\<close> is \<open>undefined\<close> in the strict-mode \<open>onceWrapped\<close>.
\<close>

definition mainWrap ::
  "world \<Rightarrow> run \<Rightarrow> slot list \<Rightarrow> slot \<Rightarrow> slot \<Rightarrow> bool \<times> state \<Rightarrow> outcome \<times> (bool \<times> state)" where
  "mainWrap W fn args res next cs =
     (let cs1 = run_events W args (sync_events fn) cs
      in case completion fn of
           Throws err \<Rightarrow> catch_block W res next err cs1
         | Returns v \<Rightarrow> (Fulfilled, cs1)
         | ReturnsPromise evs settle \<Rightarrow>
             (let cs2 = run_events W args evs cs1
              in case settle of
                   Never \<Rightarrow> (Suspended, cs2)
                 | Rejects err \<Rightarrow> catch_block W res next err cs2
                 | Resolves v \<Rightarrow>
                     (case headersSent_of res (snd cs2) of
                        Inl e \<Rightarrow> catch_block W res next e cs2
                      | Inr sent \<Rightarrow>
                          if \<not> sent then
                            (case call_slot W ByWrapper next VUndefined [] cs2 of
                               (Inl e, cs3) \<Rightarrow> catch_block W res next e cs3
                             | (Inr u, cs3) \<Rightarrow> (Fulfilled, cs3))
                          else (Fulfilled, cs2))))"

subsection \<open>\<open>asyncWrapped\<close> and \<open>wrappedParamMiddleware\<close>\<close>

text \<open>
  \<open>arguments[resIndex]\<close> is read after the assignment, so it is the guard when the two
  indices coincide. In both closures \<open>r\<close> is what the captured \<open>fn\<close> does in this
  invocation, and the state starts with the flag of the new guard, \<open>called = false\<close>.
  The closure itself returns \<open>undefined\<close> at once and throws nothing; its result here
  is how the promise of \<open>_mainWrap\<close> ends, and the state it leaves.
\<close>

definition res_at :: "nat \<Rightarrow> nat \<Rightarrow> val list \<Rightarrow> slot" where
  "res_at resIndex nextIndex arguments =
     (if resIndex = nextIndex then fst (install_guard nextIndex arguments)
      else Plain (arg_at arguments resIndex))"

definition asyncWrapped ::
  "world \<Rightarrow> func \<Rightarrow> nat \<Rightarrow> nat \<Rightarrow> run \<Rightarrow> val list \<Rightarrow> state \<Rightarrow> outcome \<times> (bool \<times> state)" where
  "asyncWrapped W fn resIndex nextIndex r arguments st =
     (case install_guard nextIndex arguments of
        (next, args) \<Rightarrow>
          mainWrap W r args (res_at resIndex nextIndex arguments) next (False, st))"

definition wrappedParamMiddleware ::
  "world \<Rightarrow> func \<Rightarrow> run \<Rightarrow> val list \<Rightarrow> state \<Rightarrow> outcome \<times> (bool \<times> state)" where
  "wrappedParamMiddleware W fn r arguments st =
     (case install_guard 2 arguments of
        (next, args) \<Rightarrow>
          mainWrap W r args (res_at 1 2 arguments) next (False, st))"

text \<open>
  A whole invocation of a function made by \<open>wrap\<close> or \<open>wrapParam\<close>: the closure runs,
  then the late events happen, against the same argument list. \<open>at_settlement\<close> is
  the state in which \<open>_mainWrap\<close> resumes after \<open>await\<close> (or catches a synchronous
  throw), \<open>after_wrapper\<close> the state when \<open>_mainWrap\<close> is done, \<open>final\<close> the state
  after the late events. A function that is no such closure has no invocation here.
\<close>

record result =
  outcome :: outcome
  at_settlement :: "bool \<times> state"
  after_wrapper :: "bool \<times> state"
  final :: "bool \<times> state"

definition settle_state :: "world \<Rightarrow> run \<Rightarrow> slot list \<Rightarrow> bool \<times> state \<Rightarrow> bool \<times> state" where
  "settle_state W fn args cs =
     (let cs1 = run_events W args (sync_events fn) cs
      in case completion fn of
           ReturnsPromise evs settle \<Rightarrow> run_events W args evs cs1
         | _ \<Rightarrow> cs1)"

definition fresh :: "bool \<Rightarrow> state" where
  "fresh sent = \<lparr>headersSent = sent, calls = [], guard_log = []\<rparr>"

definition closure_result ::
  "world \<Rightarrow> nat \<Rightarrow> run \<Rightarrow> val list \<Rightarrow> bool \<Rightarrow> outcome \<times> (bool \<times> state) \<Rightarrow> result" where
  "closure_result W nextIndex r arguments sent ocs =
     \<lparr>outcome = fst ocs,
      at_settlement =
        settle_state W r (snd (install_guard nextIndex arguments)) (False, fresh sent),
      after_wrapper = snd ocs,
      final =
        run_events W (snd (install_guard nextIndex arguments))
          (late_events r) (snd ocs)\<rparr>"

definition invocation ::
  "world \<Rightarrow> func \<Rightarrow> run \<Rightarrow> val list \<Rightarrow> bool \<Rightarrow> result option" where
  "invocation W w r arguments sent =
     (case fn_code w of
        AsyncWrappedCode fn resIndex nextIndex \<Rightarrow>
          Some (closure_result W nextIndex r arguments sent
                  (asyncWrapped W fn resIndex nextIndex r arguments (fresh sent)))
      | WrappedParamCode fn \<Rightarrow>
          Some (closure_result W 2 r arguments sent
                  (wrappedParamMiddleware W fn r arguments (fresh sent)))
      | _ \<Rightarrow> None)"

subsection \<open>How the framework calls a handler\<close>

text \<open>
  Modelled from the spec: the calling convention of the framework, which is not part
  of this library (sections 4.3 and 4.4; the comment of \<open>wrapParam\<close> gives the
  parameter hook's). A handler whose \<open>length\<close> is 4 is an error handler and is called
  with (error, request, response, continuation), any other with (request, response,
  continuation); a parameter hook is called with (request, response, continuation,
  parameter value, parameter name). The response is the response object; what the
  other values are is left open.
\<close>

datatype registered = Handler func | ParamHandler func

record call_context =
  ctx_err :: val
  ctx_req :: val
  ctx_next :: val
  ctx_value :: val
  ctx_name :: val

fun wrapped :: "registered \<Rightarrow> func" where
  "wrapped (Handler h) = wrap h"
| "wrapped (ParamHandler fn) = wrapParam fn"

fun framework_arguments :: "registered \<Rightarrow> call_context \<Rightarrow> val list" where
  "framework_arguments (Handler h) c =
     (if fn_length (wrap h) = 4 then [ctx_err c, ctx_req c, VResponse, ctx_next c]
      else [ctx_req c, VResponse, ctx_next c])"
| "framework_arguments (ParamHandler fn) c =
     [ctx_req c, VResponse, ctx_next c, ctx_value c, ctx_name c]"

text \<open>
  The continuation is a function, and the framework hands it over in the
  continuation position only.
\<close>

definition proper_context :: "call_context \<Rightarrow> bool" where
  "proper_context c \<longleftrightarrow>
     typeof (ctx_next c) = ''function'' \<and> ctx_err c \<noteq> ctx_next c \<and> ctx_req c \<noteq> ctx_next c \<and>
     ctx_value c \<noteq> ctx_next c \<and> ctx_name c \<noteq> ctx_next c"

definition framework_invocation ::
  "world \<Rightarrow> registered \<Rightarrow> run \<Rightarrow> call_context \<Rightarrow> bool \<Rightarrow> result option" where
  "framework_invocation W reg r c sent =
     invocation W (wrapped reg) r (framework_arguments reg c) sent"

text \<open>
  What an invocation did, read off a state: the calls that reached the continuation,
  and the calls of the guarded continuation that \<open>_mainWrap\<close> made itself, each
  with its \<open>this\<close> and its arguments.
\<close>

definition continuation_calls :: "val \<Rightarrow> state \<Rightarrow> (val \<times> val list) list" where
  "continuation_calls next st = map snd (filter (\<lambda>c. fst c = next) (calls st))"

definition wrapper_calls :: "state \<Rightarrow> (val \<times> val list) list" where
  "wrapper_calls st = map snd (filter (\<lambda>c. fst c = ByWrapper) (guard_log st))"

text \<open>
  The index at which a closure installs its guard, and the argument list the user's
  handler receives when the framework calls the closure.
\<close>

definition guard_index :: "func \<Rightarrow> nat" where
  "guard_index w =
     (case fn_code w of
        AsyncWrappedCode fn resIndex nextIndex \<Rightarrow> nextIndex
      | WrappedParamCode fn \<Rightarrow> 2
      | _ \<Rightarrow> 0)"

definition received_arguments :: "registered \<Rightarrow> call_context \<Rightarrow> slot list" where
  "received_arguments reg c =
     snd (install_guard (guard_index (wrapped reg)) (framework_arguments reg c))"

text \<open>The calls, among those listed, that pass no argument.\<close>

definition no_argument_calls :: "(val \<times> val list) list \<Rightarrow> (val \<times> val list) list" where
  "no_argument_calls cs = filter (\<lambda>c. snd c = []) cs"

text \<open>
  The invariant of the guard: the continuation has been reached at most once, and not
  at all while \<open>called\<close> is false.
\<close>

definition guard_inv :: "val \<Rightarrow> bool \<times> state \<Rightarrow> bool" where
  "guard_inv next cs \<longleftrightarrow>
     (\<not> fst cs \<longrightarrow> continuation_calls next (snd cs) = []) \<and>
     length (continuation_calls next (snd cs)) \<le> 1"

section \<open>The augmenter: \<open>addAsync\<close>\<close>

subsection \<open>Objects and arrays\<close>

text \<open>
  \<open>addAsync\<close> writes properties of the object \<open>app\<close> and removes an element of the
  array \<open>methods\<close>, both visible to the caller afterwards: objects and arrays live in a
  store, by address. An object is the table of the properties that a lookup on it
  finds. The elements of \<open>methods\<close> are strings, as documented.
\<close>

record heap =
  objects :: "addr \<Rightarrow> string \<rightharpoonup> val"
  arrays :: "addr \<Rightarrow> string list"

definition set_property :: "addr \<Rightarrow> string \<Rightarrow> val \<Rightarrow> heap \<Rightarrow> heap" where
  "set_property a name v h = h\<lparr>objects := (objects h)(a := (objects h a)(name \<mapsto> v))\<rparr>"

text \<open>\<open>xs.indexOf (x)\<close>: the first index, \<open>None\<close> for \<open>-1\<close>.\<close>

fun indexOf :: "'a \<Rightarrow> 'a list \<Rightarrow> nat option" where
  "indexOf x [] = None"
| "indexOf x (y # ys) =
     (if y = x then Some 0 else (case indexOf x ys of None \<Rightarrow> None | Some i \<Rightarrow> Some (Suc i)))"

text \<open>What \<open>xs.splice (i, 1)\<close> leaves in \<open>xs\<close>.\<close>

definition splice1 :: "nat \<Rightarrow> 'a list \<Rightarrow> 'a list" where
  "splice1 i xs = take i xs @ drop (Suc i) xs"

subsection \<open>The generated methods\<close>

definition routeAsync_fn :: val where
  "routeAsync_fn = VFunction (FunctionObject 0 ''routeAsync'' RouteAsyncCode)"

definition paramAsync_fn :: "addr \<Rightarrow> val" where
  "paramAsync_fn app = VFunction (FunctionObject 2 ''paramAsync'' (ParamAsyncCode app))"

definition methodAsync_fn :: "addr \<Rightarrow> string \<Rightarrow> val" where
  "methodAsync_fn app method =
     VFunction (FunctionObject 0 (method @ ''Async'') (MethodAsyncCode app method))"

text \<open>
  What a call of a generated method comes to. The methods of the framework are opaque,
  so a call that goes through is described by the call it forwards: \<open>Forwarded a m args\<close>
  is the call \<open>a[m] (...args)\<close> of a function that exists, whose result is returned;
  \<open>RouteForwarded a args\<close> is \<open>addAsync (a.route (...args))\<close>.
\<close>

datatype reply =
    Raised error
  | Forwarded addr string "val list"
  | RouteForwarded addr "val list"
  | NotGenerated
  | IllTyped

definition callable :: "heap \<Rightarrow> addr \<Rightarrow> string \<Rightarrow> bool" where
  "callable h a name =
     (case objects h a name of None \<Rightarrow> False | Some v \<Rightarrow> typeof v = ''function'')"

text \<open>
  The \<open>TypeError\<close> of calling what is no function, which names the expression
  called: \<open>app[method]\<close> in the generic method, \<open>app.param\<close> in \<open>paramAsync\<close>.
\<close>

definition not_a_function :: "string \<Rightarrow> error" where
  "not_a_function expr = TypeError (expr @ '' is not a function'')"

text \<open>
  The generic method: \<open>const args = map.call (arguments, _wrapArg); return app[method] (...args)\<close>.
\<close>

definition methodAsync :: "heap \<Rightarrow> addr \<Rightarrow> string \<Rightarrow> val list \<Rightarrow> reply" where
  "methodAsync h app method arguments =
     (case wrapArgs arguments of
        Inl e \<Rightarrow> Raised e
      | Inr args \<Rightarrow>
          if callable h app method then Forwarded app method args
          else Raised (not_a_function ''app[method]''))"

text \<open>\<open>paramAsync (name, callback)\<close>: \<open>return app.param (name, wrapParam (callback))\<close>.\<close>

definition paramAsync :: "heap \<Rightarrow> addr \<Rightarrow> val \<Rightarrow> func \<Rightarrow> reply" where
  "paramAsync h app name callback =
     (if callable h app ''param''
      then Forwarded app ''param'' [name, VFunction (wrapParam callback)]
      else Raised (not_a_function ''app.param''))"

text \<open>\<open>routeAsync\<close>: \<open>return addAsync (this.route.apply (this, arguments))\<close>.\<close>

definition routeAsync :: "heap \<Rightarrow> addr \<Rightarrow> val list \<Rightarrow> reply" where
  "routeAsync h this arguments =
     (case objects h this ''route'' of
        None \<Rightarrow> Raised (apply_error ''this.route'' VUndefined)
      | Some v \<Rightarrow>
          if typeof v = ''function'' then RouteForwarded this arguments
          else Raised (apply_error ''this.route'' v))"

text \<open>
  The method call \<open>app.name (...arguments)\<close> on the object \<open>this\<close>, which the caller
  holds in \<open>app\<close>. A property that is a function of
  another origin is not this library's to describe (\<open>NotGenerated\<close>); \<open>paramAsync\<close>
  is described for a callback that is a function, as documented (\<open>IllTyped\<close>
  otherwise).
\<close>

definition call_property :: "heap \<Rightarrow> addr \<Rightarrow> string \<Rightarrow> val list \<Rightarrow> reply" where
  "call_property h this name arguments =
     (case objects h this name of
        Some (VFunction f) \<Rightarrow>
          (case fn_code f of
             MethodAsyncCode app method \<Rightarrow> methodAsync h app method arguments
           | ParamAsyncCode app \<Rightarrow>
               (case arguments of
                  name # VFunction callback # rest \<Rightarrow> paramAsync h app name callback
                | _ \<Rightarrow> IllTyped)
           | RouteAsyncCode \<Rightarrow> routeAsync h this arguments
           | _ \<Rightarrow> NotGenerated)
      | _ \<Rightarrow> Raised (not_a_function (''app.'' @ name)))"

subsection \<open>\<open>addAsync\<close>\<close>

definition default_methods :: "string list" where
  "default_methods =
     [''use'', ''delete'', ''get'', ''head'', ''param'', ''patch'', ''post'', ''put'']"

text \<open>The loop \<open>for (const method of methods)\<close>: it writes \<open>app\<close> only.\<close>

fun install_methods :: "addr \<Rightarrow> string list \<Rightarrow> heap \<Rightarrow> heap" where
  "install_methods app [] h = h"
| "install_methods app (method # methods) h =
     install_methods app methods
       (set_property app (method @ ''Async'') (methodAsync_fn app method) h)"

text \<open>
  The argument \<open>methods\<close> is the address of the caller's array, or \<open>None\<close> when it
  is left out (\<open>undefined\<close>): the default is then a new array that nobody else sees,
  and need not be stored.
\<close>

definition method_names :: "heap \<Rightarrow> addr option \<Rightarrow> string list" where
  "method_names h methods =
     (case methods of None \<Rightarrow> default_methods | Some m \<Rightarrow> arrays h m)"

definition store_names :: "addr option \<Rightarrow> string list \<Rightarrow> heap \<Rightarrow> heap" where
  "store_names methods names h =
     (case methods of None \<Rightarrow> h | Some m \<Rightarrow> h\<lparr>arrays := (arrays h)(m := names)\<rparr>)"

definition addAsync :: "addr \<Rightarrow> addr option \<Rightarrow> heap \<Rightarrow> addr \<times> heap" where
  "addAsync app methods h =
     (let h1 = set_property app ''routeAsync'' routeAsync_fn h;
          names = method_names h1 methods
      in case indexOf ''param'' names of
           None \<Rightarrow> (app, install_methods app names h1)
         | Some paramIndex \<Rightarrow>
             (let remaining = splice1 paramIndex names;
                  h2 = store_names methods remaining h1;
                  h3 = set_property app ''paramAsync'' (paramAsync_fn app) h2
              in (app, install_methods app remaining h3)))"

text \<open>
  What the loop writes, as a table, and what the whole of \<open>addAsync\<close> writes to
  \<open>app\<close>: later entries override earlier ones.
\<close>

fun generated_methods :: "addr \<Rightarrow> string list \<Rightarrow> string \<rightharpoonup> val" where
  "generated_methods app [] = Map.empty"
| "generated_methods app (method # methods) =
     [method @ ''Async'' \<mapsto> methodAsync_fn app method] ++ generated_methods app methods"

definition augmentation :: "addr \<Rightarrow> string list \<Rightarrow> string \<rightharpoonup> val" where
  "augmentation app names =
     (case indexOf ''param'' names of
        None \<Rightarrow> [''routeAsync'' \<mapsto> routeAsync_fn] ++ generated_methods app names
      | Some paramIndex \<Rightarrow>
          [''routeAsync'' \<mapsto> routeAsync_fn, ''paramAsync'' \<mapsto> paramAsync_fn app] ++
            generated_methods app (splice1 paramIndex names))"

section \<open>Examples\<close>

text \<open>
  A world in which every call returns normally and sends nothing, a continuation, and
  the context of a request.
\<close>

definition quiet :: world where
  "quiet callee this arguments = \<lparr>throws = None, sends = False\<rparr>"

definition example_next :: val where
  "example_next = VFunction (FunctionObject 1 ''next'' (OpaqueCode 0))"

definition example_context :: call_context where
  "example_context =
     \<lparr>ctx_err = VError (Error ''earlier''), ctx_req = VObject 0, ctx_next = example_next,
      ctx_value = VStr ''42'', ctx_name = VStr ''id''\<rparr>"

definition example_handler :: func where
  "example_handler = FunctionObject 3 ''handler'' (OpaqueCode 1)"

definition example_error_handler :: func where
  "example_error_handler = FunctionObject 4 ''onError'' (OpaqueCode 2)"

text \<open>
  A handler that calls its continuation itself, twice, while its promise is pending,
  and once more from a callback after the promise has been fulfilled.
\<close>

definition eager_run :: run where
  "eager_run =
     \<lparr>sync_events = [],
      completion =
        ReturnsPromise [CallArg 2 VUndefined [], CallArg 2 VUndefined [VStr ''route'']]
          (Resolves VUndefined),
      late_events = [CallArg 2 VNull [VError (Error ''late'')]]\<rparr>"

text \<open>
  Handlers whose promise is fulfilled (without and with an answer sent meanwhile), a
  handler whose promise is rejected, a synchronous handler that calls its continuation
  and then throws, handlers that return a thenable that is no native promise (one that
  will be fulfilled, one that will be rejected) and do nothing else, and a synchronous
  handler that calls its continuation and returns.
\<close>

definition plain_run :: run where
  "plain_run =
     \<lparr>sync_events = [], completion = ReturnsPromise [] (Resolves VUndefined), late_events = []\<rparr>"

definition answering_run :: run where
  "answering_run =
     \<lparr>sync_events = [],
      completion = ReturnsPromise [Send] (Resolves VUndefined),
      late_events = []\<rparr>"

definition rejecting_run :: run where
  "rejecting_run =
     \<lparr>sync_events = [],
      completion = ReturnsPromise [] (Rejects (VError (Error ''Oops!''))),
      late_events = []\<rparr>"

definition hasty_run :: run where
  "hasty_run =
     \<lparr>sync_events = [CallArg 2 VUndefined []],
      completion = Throws (VError (Error ''Oops!'')),
      late_events = []\<rparr>"

definition thenable_run :: run where
  "thenable_run =
     \<lparr>sync_events = [], completion = Returns (VThenable Fulfils), late_events = []\<rparr>"

definition failing_thenable_run :: run where
  "failing_thenable_run =
     \<lparr>sync_events = [],
      completion = Returns (VThenable (RejectsWith (Error ''Oops!''))),
      late_events = []\<rparr>"

definition callback_run :: run where
  "callback_run =
     \<lparr>sync_events = [CallArg 2 VUndefined []], completion = Returns VUndefined, late_events = []\<rparr>"

text \<open>
  A function of the framework, an application object at address 1 with three of the
  framework's methods, and a caller's array of method names at address 0, one of them
  naming a method the application does not have. A function that records its calls.
  A store with such an application whose array of method names has \<open>param\<close> twice.
\<close>

definition native :: "string \<Rightarrow> nat \<Rightarrow> val" where
  "native name k = VFunction (FunctionObject 0 name (OpaqueCode k))"

definition example_heap :: heap where
  "example_heap =
     \<lparr>objects =
        (\<lambda>a. if a = 1
             then [''get'' \<mapsto> native ''get'' 10, ''param'' \<mapsto> native ''param'' 11,
                   ''route'' \<mapsto> native ''route'' 12]
             else Map.empty),
      arrays = (\<lambda>a. if a = 0 then [''get'', ''param'', ''frobnicate''] else [])\<rparr>"

definition recorder :: "(val \<times> val list) list jsfun" where
  "recorder this arguments log = (Inr (VStr ''done''), log @ [(this, arguments)])"

definition duplicate_heap :: heap where
  "duplicate_heap =
     \<lparr>objects =
        (\<lambda>a. if a = 1
             then [''get'' \<mapsto> native ''get'' 10, ''param'' \<mapsto> native ''param'' 11,
                   ''post'' \<mapsto> native ''post'' 13]
             else Map.empty),
      arrays = (\<lambda>a. if a = 0 then [''get'', ''param'', ''post'', ''param''] else [])\<rparr>"

section \<open>Properties of an invocation\<close>

subsection \<open>Calling a value\<close>

lemma apply_fn_calls:
  "calls (snd (apply_fn W fn this a st)) =
     calls st @ (if typeof fn = ''function'' then [(fn, this, a)] else [])"
  by (cases fn) (simp_all add: apply_fn_def)

lemma apply_fn_guard_log [simp]:
  "guard_log (snd (apply_fn W fn this a st)) = guard_log st"
  by (cases fn) (simp_all add: apply_fn_def)

lemma apply_fn_throws:
  "typeof fn = ''function'' \<Longrightarrow>
   fst (apply_fn W fn this a st) =
     (case throws (W fn this a) of Some e \<Rightarrow> Inl e | None \<Rightarrow> Inr VUndefined)"
  by (cases fn) (simp_all add: apply_fn_def)

lemma call_slot_Plain:
  "call_slot W who (Plain v) this a cs =
     (fst (apply_fn W v this a (snd cs)), (fst cs, snd (apply_fn W v this a (snd cs))))"
  by (simp add: call_slot_def split_beta)

lemma call_slot_fired:
  "fst cs \<Longrightarrow>
   call_slot W who (OnceWrapped fn) this a cs =
     (Inr VUndefined, (True, log_guard who this a (snd cs)))"
  by (simp add: call_slot_def onceWrapped_def)

lemma call_slot_first:
  "\<not> fst cs \<Longrightarrow>
   call_slot W who (OnceWrapped fn) this a cs =
     ((case fst (apply_fn W fn this a (log_guard who this a (snd cs))) of
         Inl e \<Rightarrow> Inl e | Inr v \<Rightarrow> Inr VUndefined),
      (True, snd (apply_fn W fn this a (log_guard who this a (snd cs)))))"
  by (simp add: call_slot_def onceWrapped_def split_beta split: sum.split)

lemma log_guard_simps [simp]:
  "calls (log_guard who this a st) = calls st"
  "headersSent (log_guard who this a st) = headersSent st"
  "guard_log (log_guard who this a st) = guard_log st @ [(who, this, a)]"
  by (simp_all add: log_guard_def)

subsection \<open>The guard's invariant\<close>

lemma call_slot_inv:
  assumes "guard_inv next cs" and "sl \<noteq> Plain next"
  shows "guard_inv next (snd (call_slot W who sl this a cs))"
proof (cases sl)
  case (Plain v)
  with assms show ?thesis
    by (simp add: call_slot_Plain guard_inv_def continuation_calls_def apply_fn_calls)
next
  case (OnceWrapped fn)
  with assms(1) show ?thesis
    by (cases "fst cs")
      (simp_all add: call_slot_fired call_slot_first guard_inv_def continuation_calls_def
        apply_fn_calls)
qed

lemma slot_at_cases: "slot_at args i \<in> set args \<or> slot_at args i = Plain VUndefined"
  by (simp add: slot_at_def)

lemma do_event_inv:
  assumes "guard_inv next cs" and "Plain next \<notin> set args" and "typeof next = ''function''"
  shows "guard_inv next (do_event W args ev cs)"
proof (cases ev)
  case (CallArg i this a)
  from assms(2,3) slot_at_cases [of args i] have "slot_at args i \<noteq> Plain next"
    by auto
  with assms(1) CallArg show ?thesis
    by (simp add: call_slot_inv)
next
  case Send
  with assms(1) show ?thesis
    by (simp add: guard_inv_def continuation_calls_def)
qed

lemma run_events_inv:
  "guard_inv next cs \<Longrightarrow> Plain next \<notin> set args \<Longrightarrow> typeof next = ''function'' \<Longrightarrow>
   guard_inv next (run_events W args evs cs)"
  by (induction evs arbitrary: cs) (simp_all add: do_event_inv)

lemma catch_block_inv:
  "guard_inv next cs \<Longrightarrow> guard_inv next (snd (catch_block W res (OnceWrapped fn) err cs))"
  using call_slot_inv [of "next" cs "OnceWrapped fn" W ByWrapper VUndefined "[err]"]
  by (simp add: catch_block_def split_beta split: sum.split)

lemma mainWrap_inv:
  assumes "guard_inv next cs" and "Plain next \<notin> set args" and "typeof next = ''function''"
  shows "guard_inv next (snd (mainWrap W r args res (OnceWrapped fn) cs))"
proof -
  let ?cs1 = "run_events W args (sync_events r) cs"
  have inv1: "guard_inv next ?cs1"
    using assms by (rule run_events_inv)
  show ?thesis
  proof (cases "completion r")
    case (Returns v)
    with inv1 show ?thesis by (simp add: mainWrap_def)
  next
    case (Throws err)
    with inv1 show ?thesis by (simp add: mainWrap_def catch_block_inv)
  next
    case (ReturnsPromise evs settle)
    let ?cs2 = "run_events W args evs ?cs1"
    have inv2: "guard_inv next ?cs2"
      using inv1 assms(2,3) by (rule run_events_inv)
    have inv3: "guard_inv next (snd (call_slot W ByWrapper (OnceWrapped fn) VUndefined [] ?cs2))"
      using inv2 by (simp add: call_slot_inv)
    show ?thesis
    proof (cases settle)
      case Never
      with ReturnsPromise inv2 show ?thesis by (simp add: mainWrap_def)
    next
      case (Rejects err)
      with ReturnsPromise inv2 show ?thesis by (simp add: mainWrap_def catch_block_inv)
    next
      case (Resolves v)
      with ReturnsPromise inv2 inv3 show ?thesis
        by (simp add: mainWrap_def Let_def catch_block_inv split_beta split: sum.split)
    qed
  qed
qed


subsection \<open>The framework's invocations\<close>

lemma received_arguments_eq:
  "received_arguments reg c =
     (case reg of
        Handler h \<Rightarrow>
          if fn_length h = 4
          then [Plain (ctx_err c), Plain (ctx_req c), Plain VResponse, OnceWrapped (ctx_next c)]
          else [Plain (ctx_req c), Plain VResponse, OnceWrapped (ctx_next c)]
      | ParamHandler fn \<Rightarrow>
          [Plain (ctx_req c), Plain VResponse, OnceWrapped (ctx_next c),
           Plain (ctx_value c), Plain (ctx_name c)])"
  by (cases reg)
    (simp_all add: received_arguments_def guard_index_def wrap_def wrapParam_def
      install_guard_def arg_at_def Let_def)

lemma received_arguments_proper:
  "proper_context c \<Longrightarrow> Plain (ctx_next c) \<notin> set (received_arguments reg c)"
  by (cases reg) (auto simp add: received_arguments_eq proper_context_def)

lemma framework_invocation_eq:
  "framework_invocation W reg r c sent =
     Some \<lparr>outcome =
             fst (mainWrap W r (received_arguments reg c) (Plain VResponse)
                    (OnceWrapped (ctx_next c)) (False, fresh sent)),
           at_settlement = settle_state W r (received_arguments reg c) (False, fresh sent),
           after_wrapper =
             snd (mainWrap W r (received_arguments reg c) (Plain VResponse)
                    (OnceWrapped (ctx_next c)) (False, fresh sent)),
           final =
             run_events W (received_arguments reg c) (late_events r)
               (snd (mainWrap W r (received_arguments reg c) (Plain VResponse)
                       (OnceWrapped (ctx_next c)) (False, fresh sent)))\<rparr>"
  by (cases reg)
    (simp_all add: framework_invocation_def invocation_def closure_result_def
      asyncWrapped_def wrappedParamMiddleware_def received_arguments_def guard_index_def
      wrap_def wrapParam_def install_guard_def res_at_def arg_at_def Let_def)

lemma guard_inv_fresh: "guard_inv next (False, fresh sent)"
  by (simp add: guard_inv_def fresh_def continuation_calls_def)

lemma at_most_one:
  "length k \<le> 1 \<Longrightarrow> k = [] \<or> (\<exists>this. k = [(this, [])]) \<or> (\<exists>this e es. k = [(this, e # es)])"
  for k :: "(val \<times> val list) list"
proof (cases k)
  case Nil
  then show ?thesis by simp
next
  case (Cons x xs)
  assume "length k \<le> 1"
  with Cons have "xs = []" by simp
  with Cons show ?thesis
    by (cases x; cases "snd x") auto
qed

text \<open>
  Claim C1. Whenever the framework calls a function made by \<open>wrap\<close> or \<open>wrapParam\<close>,
  the continuation it supplied is reached at most once in the whole invocation,
  whatever the handler does before it returns, while its promise is pending, or from
  callbacks afterwards, and whatever \<open>_mainWrap\<close> adds: there is no call of the
  continuation, or one call without an argument, or one call carrying an argument.
\<close>

theorem continuation_at_most_once:
  assumes "proper_context c"
  shows "\<exists>res. framework_invocation W reg r c sent = Some res \<and>
           (let k = continuation_calls (ctx_next c) (snd (final res))
            in k = [] \<or> (\<exists>this. k = [(this, [])]) \<or> (\<exists>this e es. k = [(this, e # es)]))"
proof -
  let ?args = "received_arguments reg c"
  let ?next = "ctx_next c"
  have slots: "Plain ?next \<notin> set ?args"
    using assms by (rule received_arguments_proper)
  have fn: "typeof ?next = ''function''"
    using assms by (simp add: proper_context_def)
  have "guard_inv ?next
          (snd (mainWrap W r ?args (Plain VResponse) (OnceWrapped ?next) (False, fresh sent)))"
    using guard_inv_fresh slots fn by (rule mainWrap_inv)
  then have "guard_inv ?next
          (run_events W ?args (late_events r)
             (snd (mainWrap W r ?args (Plain VResponse) (OnceWrapped ?next) (False, fresh sent))))"
    using slots fn by (rule run_events_inv)
  then have "length (continuation_calls ?next
          (snd (run_events W ?args (late_events r)
             (snd (mainWrap W r ?args (Plain VResponse) (OnceWrapped ?next) (False, fresh sent))))))
        \<le> 1"
    by (simp add: guard_inv_def)
  then show ?thesis
    by (simp add: framework_invocation_eq Let_def at_most_one)
qed

theorem continuation_at_most_once_witness:
  "proper_context example_context \<and>
   (\<exists>res. framework_invocation quiet (Handler example_handler) eager_run example_context False
            = Some res \<and>
          (let k = continuation_calls (ctx_next example_context) (snd (final res))
           in k = [] \<or> (\<exists>this. k = [(this, [])]) \<or> (\<exists>this e es. k = [(this, e # es)]))) \<and>
   continuation_calls (ctx_next example_context)
     (snd (final (the (framework_invocation quiet (Handler example_handler) eager_run
        example_context False)))) = [(VUndefined, [])]"
proof -
  have proper: "proper_context example_context"
    by (simp add: proper_context_def example_context_def example_next_def)
  have reached: "continuation_calls (ctx_next example_context)
     (snd (final (the (framework_invocation quiet (Handler example_handler) eager_run
        example_context False)))) = [(VUndefined, [])]"
    by code_simp
  from continuation_at_most_once [OF proper, of quiet "Handler example_handler" eager_run False]
  show ?thesis using proper reached by simp
qed

subsection \<open>The wrapper's own calls\<close>

lemma wrapper_calls_fresh [simp]: "wrapper_calls (fresh sent) = []"
  by (simp add: wrapper_calls_def fresh_def)

lemma wrapper_calls_log:
  "wrapper_calls (log_guard who this a st) =
     wrapper_calls st @ (if who = ByWrapper then [(this, a)] else [])"
  by (simp add: wrapper_calls_def)

lemma continuation_calls_log [simp]:
  "continuation_calls next (log_guard who this a st) = continuation_calls next st"
  by (simp add: continuation_calls_def)

lemma wrapper_calls_apply_fn [simp]:
  "wrapper_calls (snd (apply_fn W fn this a st)) = wrapper_calls st"
  by (simp add: wrapper_calls_def)

lemma do_event_wrapper_calls:
  "wrapper_calls (snd (do_event W args ev cs)) = wrapper_calls (snd cs)"
proof (cases ev)
  case (CallArg i this a)
  then show ?thesis
    by (cases "slot_at args i"; cases "fst cs")
      (simp_all add: call_slot_Plain call_slot_fired call_slot_first wrapper_calls_def)
next
  case Send
  then show ?thesis by (simp add: wrapper_calls_def)
qed

lemma run_events_wrapper_calls:
  "wrapper_calls (snd (run_events W args evs cs)) = wrapper_calls (snd cs)"
  by (induction evs arbitrary: cs) (simp_all add: do_event_wrapper_calls)

lemma run_events_append:
  "run_events W args (evs @ evs') cs = run_events W args evs' (run_events W args evs cs)"
  by (induction evs arbitrary: cs) simp_all

text \<open>The \<open>catch\<close> block on the response object, by cases.\<close>

lemma catch_block_sent:
  "headersSent (snd cs) \<Longrightarrow>
   catch_block W (Plain VResponse) next err cs = (Fulfilled, cs)"
  by (simp add: catch_block_def)

lemma catch_block_fired:
  "\<not> headersSent (snd cs) \<Longrightarrow> fst cs \<Longrightarrow>
   catch_block W (Plain VResponse) (OnceWrapped fn) err cs =
     (Fulfilled, (True, log_guard ByWrapper VUndefined [err] (snd cs)))"
  by (simp add: catch_block_def call_slot_fired)

lemma catch_block_first:
  "\<not> headersSent (snd cs) \<Longrightarrow> \<not> fst cs \<Longrightarrow> typeof fn = ''function'' \<Longrightarrow>
   catch_block W (Plain VResponse) (OnceWrapped fn) err cs =
     ((case throws (W fn VUndefined [err]) of None \<Rightarrow> Fulfilled | Some x \<Rightarrow> Rejected x),
      (True, snd (apply_fn W fn VUndefined [err] (log_guard ByWrapper VUndefined [err] (snd cs)))))"
  by (simp add: catch_block_def call_slot_first apply_fn_throws split: option.split)

lemma catch_block_wrapper_calls:
  "wrapper_calls (snd (snd (catch_block W (Plain VResponse) (OnceWrapped fn) err cs))) =
     wrapper_calls (snd cs) @ (if headersSent (snd cs) then [] else [(VUndefined, [err])])"
  by (cases "fst cs")
    (simp_all add: catch_block_def call_slot_fired call_slot_first wrapper_calls_def split_beta
      split: sum.split)

lemma mainWrap_failure:
  assumes "completion r = Throws e \<or> (\<exists>evs. completion r = ReturnsPromise evs (Rejects e))"
  shows "mainWrap W r args res next cs = catch_block W res next e (settle_state W r args cs)"
  using assms by (auto simp add: mainWrap_def settle_state_def Let_def)

lemma mainWrap_returns:
  assumes "completion r = Returns v"
  shows "mainWrap W r args res next cs = (Fulfilled, settle_state W r args cs)"
  using assms by (simp add: mainWrap_def settle_state_def Let_def)

lemma mainWrap_resolves_sent:
  assumes "completion r = ReturnsPromise evs (Resolves v)"
    and "headersSent (snd (settle_state W r args cs))"
  shows "mainWrap W r args (Plain VResponse) next cs = (Fulfilled, settle_state W r args cs)"
  using assms by (simp add: mainWrap_def settle_state_def Let_def)

lemma mainWrap_resolves_unsent:
  assumes "completion r = ReturnsPromise evs (Resolves v)"
    and "\<not> headersSent (snd (settle_state W r args cs))"
  shows "mainWrap W r args (Plain VResponse) next cs =
     (case call_slot W ByWrapper next VUndefined [] (settle_state W r args cs) of
        (Inl e, cs3) \<Rightarrow> catch_block W (Plain VResponse) next e cs3
      | (Inr u, cs3) \<Rightarrow> (Fulfilled, cs3))"
  using assms by (simp add: mainWrap_def settle_state_def Let_def)

lemma settle_state_inv:
  "guard_inv next cs \<Longrightarrow> Plain next \<notin> set args \<Longrightarrow> typeof next = ''function'' \<Longrightarrow>
   guard_inv next (settle_state W r args cs)"
  by (cases "completion r") (simp_all add: settle_state_def Let_def run_events_inv)

lemma settle_state_wrapper_calls:
  "wrapper_calls (snd (settle_state W r args cs)) = wrapper_calls (snd cs)"
  by (cases "completion r") (simp_all add: settle_state_def Let_def run_events_wrapper_calls)

lemma framework_settle_inv:
  "proper_context c \<Longrightarrow>
   guard_inv (ctx_next c) (settle_state W r (received_arguments reg c) (False, fresh sent))"
  by (rule settle_state_inv [OF guard_inv_fresh received_arguments_proper])
    (simp_all add: proper_context_def)

lemma framework_settle_wrapper_calls [simp]:
  "wrapper_calls (snd (settle_state W r (received_arguments reg c) (False, fresh sent))) = []"
  by (simp add: settle_state_wrapper_calls)

lemma proper_example: "proper_context example_context"
  by (simp add: proper_context_def example_context_def example_next_def)

lemma catch_block_after_firing:
  "fst cs \<Longrightarrow>
   calls (snd (snd (catch_block W (Plain VResponse) (OnceWrapped fn) err cs))) = calls (snd cs)"
  by (cases "headersSent (snd cs)") (simp_all add: catch_block_sent catch_block_fired)

lemma success_call_fired:
  assumes "fst cs"
  shows "(case call_slot W ByWrapper (OnceWrapped fn) VUndefined [] cs of
            (Inl e, cs3) \<Rightarrow> catch_block W (Plain VResponse) (OnceWrapped fn) e cs3
          | (Inr u, cs3) \<Rightarrow> (Fulfilled, cs3)) =
         (Fulfilled, (True, log_guard ByWrapper VUndefined [] (snd cs)))"
  using assms by (simp add: call_slot_fired)

lemma success_call_first:
  assumes "\<not> fst cs" and "typeof fn = ''function''"
  shows "(case call_slot W ByWrapper (OnceWrapped fn) VUndefined [] cs of
            (Inl e, cs3) \<Rightarrow> catch_block W (Plain VResponse) (OnceWrapped fn) e cs3
          | (Inr u, cs3) \<Rightarrow> (Fulfilled, cs3)) =
         (case throws (W fn VUndefined []) of
            None \<Rightarrow>
              (Fulfilled,
               (True, snd (apply_fn W fn VUndefined [] (log_guard ByWrapper VUndefined [] (snd cs)))))
          | Some x \<Rightarrow>
              catch_block W (Plain VResponse) (OnceWrapped fn) x
               (True, snd (apply_fn W fn VUndefined [] (log_guard ByWrapper VUndefined [] (snd cs)))))"
  using assms by (simp add: call_slot_first apply_fn_throws split: option.split)

text \<open>
  Claim C2, amended. When the handler returns a native promise (a value that
  \<open>isPromise\<close> accepts) and the promise is fulfilled: if the headers are not sent when
  \<open>_mainWrap\<close> resumes, it calls the guarded continuation without arguments exactly
  once (and makes no other call of it when the continuation returns normally or the
  guard has fired before); the call reaches the continuation of the framework when the
  guard has not fired before. If the headers are sent, \<open>_mainWrap\<close> calls nothing and
  leaves the state as it is.
\<close>

theorem fulfilled_promise_calls_next_unless_sent:
  assumes "proper_context c"
    and "completion r = ReturnsPromise evs (Resolves v)"
  shows "\<exists>res. framework_invocation W reg r c sent = Some res \<and>
           (if headersSent (snd (at_settlement res))
            then wrapper_calls (snd (final res)) = [] \<and> after_wrapper res = at_settlement res \<and>
                 (\<not> fst (at_settlement res) \<longrightarrow>
                    continuation_calls (ctx_next c) (snd (after_wrapper res)) = [])
            else no_argument_calls (wrapper_calls (snd (final res))) = [(VUndefined, [])] \<and>
                 (fst (at_settlement res) \<or> throws (W (ctx_next c) VUndefined []) = None \<longrightarrow>
                    wrapper_calls (snd (final res)) = [(VUndefined, [])]) \<and>
                 continuation_calls (ctx_next c) (snd (after_wrapper res)) =
                   (if fst (at_settlement res)
                    then continuation_calls (ctx_next c) (snd (at_settlement res))
                    else [(VUndefined, [])]))"
proof -
  let ?args = "received_arguments reg c"
  let ?next = "ctx_next c"
  let ?s = "settle_state W r ?args (False, fresh sent)"
  let ?run = "mainWrap W r ?args (Plain VResponse) (OnceWrapped ?next) (False, fresh sent)"
  have fn: "typeof ?next = ''function''"
    using assms(1) by (simp add: proper_context_def)
  have inv: "guard_inv ?next ?s"
    using assms(1) by (rule framework_settle_inv)
  show ?thesis
  proof (cases "headersSent (snd ?s)")
    case True
    with assms(2) have "?run = (Fulfilled, ?s)"
      by (rule mainWrap_resolves_sent)
    with True inv show ?thesis
      by (simp add: framework_invocation_eq run_events_wrapper_calls guard_inv_def)
  next
    case unsent: False
    with assms(2) have run: "?run =
        (case call_slot W ByWrapper (OnceWrapped ?next) VUndefined [] ?s of
           (Inl e, cs3) \<Rightarrow> catch_block W (Plain VResponse) (OnceWrapped ?next) e cs3
         | (Inr u, cs3) \<Rightarrow> (Fulfilled, cs3))"
      by (rule mainWrap_resolves_unsent)
    show ?thesis
    proof (cases "fst ?s")
      case True
      then have "?run = (Fulfilled, (True, log_guard ByWrapper VUndefined [] (snd ?s)))"
        unfolding run by (rule success_call_fired)
      with unsent True show ?thesis
        by (simp add: framework_invocation_eq run_events_wrapper_calls wrapper_calls_log
            no_argument_calls_def)
    next
      case False
      let ?s3 = "(True, snd (apply_fn W ?next VUndefined []
                    (log_guard ByWrapper VUndefined [] (snd ?s))))"
      from inv False have none: "continuation_calls ?next (snd ?s) = []"
        by (simp add: guard_inv_def)
      have logged: "wrapper_calls (snd ?s3) = [(VUndefined, [])]"
        by (simp add: wrapper_calls_log)
      have reached: "continuation_calls ?next (snd ?s3) = [(VUndefined, [])]"
        using none fn by (simp add: continuation_calls_def apply_fn_calls)
      from False fn have run': "?run =
          (case throws (W ?next VUndefined []) of
             None \<Rightarrow> (Fulfilled, ?s3)
           | Some x \<Rightarrow> catch_block W (Plain VResponse) (OnceWrapped ?next) x ?s3)"
        unfolding run by (rule success_call_first)
      show ?thesis
      proof (cases "throws (W ?next VUndefined [])")
        case None
        with run' have "?run = (Fulfilled, ?s3)" by simp
        with unsent False logged reached show ?thesis
          by (simp add: framework_invocation_eq run_events_wrapper_calls no_argument_calls_def)
      next
        case (Some x)
        with run' have run'': "?run = catch_block W (Plain VResponse) (OnceWrapped ?next) x ?s3"
          by simp
        have "wrapper_calls (snd (snd ?run)) =
            [(VUndefined, [])] @ (if headersSent (snd ?s3) then [] else [(VUndefined, [x])])"
          unfolding run'' catch_block_wrapper_calls logged ..
        moreover have "continuation_calls ?next (snd (snd ?run)) = [(VUndefined, [])]"
          using reached catch_block_after_firing [of ?s3 W ?next x]
          unfolding run'' by (simp add: continuation_calls_def)
        ultimately show ?thesis
          using unsent False Some
          by (simp add: framework_invocation_eq run_events_wrapper_calls no_argument_calls_def)
      qed
    qed
  qed
qed

theorem fulfilled_promise_calls_next_unless_sent_witness:
  "proper_context example_context \<and>
   completion plain_run = ReturnsPromise [] (Resolves VUndefined) \<and>
   (\<exists>res. framework_invocation quiet (ParamHandler example_handler) plain_run example_context
            False = Some res \<and>
          \<not> headersSent (snd (at_settlement res)) \<and>
          wrapper_calls (snd (final res)) = [(VUndefined, [])] \<and>
          continuation_calls (ctx_next example_context) (snd (after_wrapper res)) =
            [(VUndefined, [])]) \<and>
   completion answering_run = ReturnsPromise [Send] (Resolves VUndefined) \<and>
   (\<exists>res. framework_invocation quiet (ParamHandler example_handler) answering_run
            example_context False = Some res \<and>
          headersSent (snd (at_settlement res)) \<and>
          wrapper_calls (snd (final res)) = [] \<and>
          continuation_calls (ctx_next example_context) (snd (after_wrapper res)) = [])"
proof -
  have run1: "completion plain_run = ReturnsPromise [] (Resolves VUndefined)"
    by (simp add: plain_run_def)
  have run2: "completion answering_run = ReturnsPromise [Send] (Resolves VUndefined)"
    by (simp add: answering_run_def)
  have unsent: "\<not> headersSent (snd (at_settlement (the (framework_invocation quiet
      (ParamHandler example_handler) plain_run example_context False))))"
    by code_simp
  have unfired: "\<not> fst (at_settlement (the (framework_invocation quiet
      (ParamHandler example_handler) plain_run example_context False)))"
    by code_simp
  have quiet: "throws (quiet (ctx_next example_context) VUndefined []) = None"
    by (simp add: quiet_def)
  have sent: "headersSent (snd (at_settlement (the (framework_invocation quiet
      (ParamHandler example_handler) answering_run example_context False))))"
    by code_simp
  have unfired2: "\<not> fst (at_settlement (the (framework_invocation quiet
      (ParamHandler example_handler) answering_run example_context False)))"
    by code_simp
  from fulfilled_promise_calls_next_unless_sent [OF proper_example run1, of quiet
      "ParamHandler example_handler" False]
    fulfilled_promise_calls_next_unless_sent [OF proper_example run2, of quiet
      "ParamHandler example_handler" False]
  show ?thesis
    using proper_example run1 run2 unsent unfired quiet sent unfired2 by auto
qed

text \<open>
  Claim C2 as stated fails for a pending asynchronous computation that is no native
  promise. The handler returns a thenable that will be fulfilled and does nothing else;
  \<open>isPromise\<close> is false on it, so \<open>_mainWrap\<close> does not wait and is done at once. The
  headers are never sent, and nobody ever calls the guarded continuation.
\<close>

theorem fulfilled_thenable_is_not_awaited:
  "completion thenable_run = Returns (VThenable Fulfils) \<and>
   \<not> headersSent (snd (final (the (framework_invocation quiet (Handler example_handler)
      thenable_run example_context False)))) \<and>
   guard_log (snd (final (the (framework_invocation quiet (Handler example_handler)
      thenable_run example_context False)))) = [] \<and>
   continuation_calls (ctx_next example_context)
     (snd (final (the (framework_invocation quiet (Handler example_handler) thenable_run
        example_context False)))) = []"
proof (intro conjI)
  show "completion thenable_run = Returns (VThenable Fulfils)"
    by (simp add: thenable_run_def)
  show "\<not> headersSent (snd (final (the (framework_invocation quiet (Handler example_handler)
      thenable_run example_context False))))"
    by code_simp
  show "guard_log (snd (final (the (framework_invocation quiet (Handler example_handler)
      thenable_run example_context False)))) = []"
    by code_simp
  show "continuation_calls (ctx_next example_context)
     (snd (final (the (framework_invocation quiet (Handler example_handler) thenable_run
        example_context False)))) = []"
    by code_simp
qed

text \<open>
  Claim C3, amended. When the handler throws \<open>e\<close> synchronously, or returns a native
  promise (a value that \<open>isPromise\<close> accepts) that is rejected with \<open>e\<close>, \<open>_mainWrap\<close>
  catches \<open>e\<close> and calls the guarded continuation once, with \<open>e\<close>, unless the headers
  are sent by then, in which case it calls nothing. That call reaches the continuation
  of the framework, carrying \<open>e\<close>, when the guard has not fired before; when it has,
  the guard drops the call and nothing more reaches the continuation. The promise of
  \<open>_mainWrap\<close> is fulfilled: it is rejected only with what the continuation of the
  framework throws itself when this call is the one that reaches it.
\<close>

theorem failure_handed_to_continuation:
  assumes "proper_context c"
    and "completion r = Throws e \<or> (\<exists>evs. completion r = ReturnsPromise evs (Rejects e))"
  shows "\<exists>res. framework_invocation W reg r c sent = Some res \<and>
           wrapper_calls (snd (final res)) =
             (if headersSent (snd (at_settlement res)) then [] else [(VUndefined, [e])]) \<and>
           outcome res =
             (if headersSent (snd (at_settlement res)) \<or> fst (at_settlement res) then Fulfilled
              else case throws (W (ctx_next c) VUndefined [e]) of
                     None \<Rightarrow> Fulfilled
                   | Some x \<Rightarrow> Rejected x) \<and>
           continuation_calls (ctx_next c) (snd (after_wrapper res)) =
             (if headersSent (snd (at_settlement res)) \<or> fst (at_settlement res)
              then continuation_calls (ctx_next c) (snd (at_settlement res))
              else [(VUndefined, [e])])"
proof -
  let ?args = "received_arguments reg c"
  let ?next = "ctx_next c"
  let ?s = "settle_state W r ?args (False, fresh sent)"
  have fn: "typeof ?next = ''function''"
    using assms(1) by (simp add: proper_context_def)
  have inv: "guard_inv ?next ?s"
    using assms(1) by (rule framework_settle_inv)
  have run: "mainWrap W r ?args (Plain VResponse) (OnceWrapped ?next) (False, fresh sent) =
      catch_block W (Plain VResponse) (OnceWrapped ?next) e ?s"
    using assms(2) by (rule mainWrap_failure)
  have kept: "continuation_calls ?next
        (snd (snd (catch_block W (Plain VResponse) (OnceWrapped ?next) e ?s))) =
      continuation_calls ?next (snd ?s)"
    if "headersSent (snd ?s) \<or> fst ?s"
    using that by (cases "headersSent (snd ?s)")
      (simp_all add: catch_block_sent catch_block_fired continuation_calls_def)
  have logged: "wrapper_calls (snd (snd (catch_block W (Plain VResponse) (OnceWrapped ?next) e ?s))) =
      (if headersSent (snd ?s) then [] else [(VUndefined, [e])])"
    by (simp add: catch_block_wrapper_calls)
  have result: "fst (catch_block W (Plain VResponse) (OnceWrapped ?next) e ?s) =
      (if headersSent (snd ?s) \<or> fst ?s then Fulfilled
       else case throws (W ?next VUndefined [e]) of None \<Rightarrow> Fulfilled | Some x \<Rightarrow> Rejected x)"
    using fn by (cases "headersSent (snd ?s)"; cases "fst ?s")
      (simp_all add: catch_block_sent catch_block_fired catch_block_first)
  have reached: "continuation_calls ?next
        (snd (snd (catch_block W (Plain VResponse) (OnceWrapped ?next) e ?s))) =
      [(VUndefined, [e])]"
    if "\<not> headersSent (snd ?s)" and "\<not> fst ?s"
  proof -
    from inv that(2) have "continuation_calls ?next (snd ?s) = []"
      by (simp add: guard_inv_def)
    with that fn show ?thesis
      by (simp add: catch_block_first continuation_calls_def apply_fn_calls)
  qed
  show ?thesis
    using logged result reached kept
    by (simp add: framework_invocation_eq run run_events_wrapper_calls)
qed

theorem failure_handed_to_continuation_witness:
  "proper_context example_context \<and>
   (completion rejecting_run = Throws (VError (Error ''Oops!'')) \<or>
    (\<exists>evs. completion rejecting_run = ReturnsPromise evs (Rejects (VError (Error ''Oops!''))))) \<and>
   (\<exists>res. framework_invocation quiet (Handler example_error_handler) rejecting_run
            example_context False = Some res \<and>
          wrapper_calls (snd (final res)) = [(VUndefined, [VError (Error ''Oops!'')])] \<and>
          outcome res = Fulfilled \<and>
          continuation_calls (ctx_next example_context) (snd (after_wrapper res)) =
            [(VUndefined, [VError (Error ''Oops!'')])])"
proof -
  have failure: "completion rejecting_run = Throws (VError (Error ''Oops!'')) \<or>
      (\<exists>evs. completion rejecting_run = ReturnsPromise evs (Rejects (VError (Error ''Oops!''))))"
    by (simp add: rejecting_run_def)
  have unsent: "\<not> headersSent (snd (at_settlement (the (framework_invocation quiet
      (Handler example_error_handler) rejecting_run example_context False))))"
    by code_simp
  have unfired: "\<not> fst (at_settlement (the (framework_invocation quiet
      (Handler example_error_handler) rejecting_run example_context False)))"
    by code_simp
  have quiet: "throws (quiet (ctx_next example_context) VUndefined [VError (Error ''Oops!'')]) = None"
    by (simp add: quiet_def)
  from failure_handed_to_continuation [OF proper_example failure, of quiet
      "Handler example_error_handler" False]
  show ?thesis
    using proper_example failure unsent unfired quiet by auto
qed

text \<open>
  Claim C3 as stated fails in two ways. For a handler that has called its continuation
  before it throws, \<open>_mainWrap\<close> calls the guarded continuation with the error, the
  guard drops the call, and the one call that reached the continuation carries no
  error. For a handler whose asynchronous computation is a thenable that is no native
  promise, \<open>isPromise\<close> is false, \<open>_mainWrap\<close> does not wait and never sees the
  rejection: with the headers not sent, nobody calls the guarded continuation.
\<close>

theorem failure_dropped_or_unseen:
  "completion hasty_run = Throws (VError (Error ''Oops!'')) \<and>
   \<not> headersSent (snd (final (the (framework_invocation quiet (Handler example_handler)
      hasty_run example_context False)))) \<and>
   wrapper_calls (snd (final (the (framework_invocation quiet (Handler example_handler)
      hasty_run example_context False)))) = [(VUndefined, [VError (Error ''Oops!'')])] \<and>
   continuation_calls (ctx_next example_context)
     (snd (final (the (framework_invocation quiet (Handler example_handler) hasty_run
        example_context False)))) = [(VUndefined, [])] \<and>
   completion failing_thenable_run = Returns (VThenable (RejectsWith (Error ''Oops!''))) \<and>
   \<not> headersSent (snd (final (the (framework_invocation quiet (Handler example_handler)
      failing_thenable_run example_context False)))) \<and>
   guard_log (snd (final (the (framework_invocation quiet (Handler example_handler)
      failing_thenable_run example_context False)))) = [] \<and>
   continuation_calls (ctx_next example_context)
     (snd (final (the (framework_invocation quiet (Handler example_handler)
        failing_thenable_run example_context False)))) = []"
proof (intro conjI)
  show "completion hasty_run = Throws (VError (Error ''Oops!''))"
    by (simp add: hasty_run_def)
  show "\<not> headersSent (snd (final (the (framework_invocation quiet (Handler example_handler)
      hasty_run example_context False))))"
    by code_simp
  show "wrapper_calls (snd (final (the (framework_invocation quiet (Handler example_handler)
      hasty_run example_context False)))) = [(VUndefined, [VError (Error ''Oops!'')])]"
    by code_simp
  show "continuation_calls (ctx_next example_context)
     (snd (final (the (framework_invocation quiet (Handler example_handler) hasty_run
        example_context False)))) = [(VUndefined, [])]"
    by code_simp
  show "completion failing_thenable_run = Returns (VThenable (RejectsWith (Error ''Oops!'')))"
    by (simp add: failing_thenable_run_def)
  show "\<not> headersSent (snd (final (the (framework_invocation quiet (Handler example_handler)
      failing_thenable_run example_context False))))"
    by code_simp
  show "guard_log (snd (final (the (framework_invocation quiet (Handler example_handler)
      failing_thenable_run example_context False)))) = []"
    by code_simp
  show "continuation_calls (ctx_next example_context)
     (snd (final (the (framework_invocation quiet (Handler example_handler)
        failing_thenable_run example_context False)))) = []"
    by code_simp
qed

text \<open>
  Claim C4. When the handler returns a value that is no promise, \<open>_mainWrap\<close> is done
  at once and has called nothing: the state it leaves is the one the handler left, and
  the state after the invocation is what the handler's own events make of the initial
  state. Calling the continuation is up to the handler.
\<close>

theorem synchronous_result_no_auto_continuation:
  assumes "completion r = Returns v"
  shows "\<exists>res. framework_invocation W reg r c sent = Some res \<and>
           outcome res = Fulfilled \<and>
           wrapper_calls (snd (final res)) = [] \<and>
           after_wrapper res = at_settlement res \<and>
           final res =
             run_events W (received_arguments reg c) (sync_events r @ late_events r)
               (False, fresh sent)"
proof -
  let ?args = "received_arguments reg c"
  have run: "mainWrap W r ?args (Plain VResponse) (OnceWrapped (ctx_next c)) (False, fresh sent) =
      (Fulfilled, settle_state W r ?args (False, fresh sent))"
    using assms by (rule mainWrap_returns)
  have settled: "settle_state W r ?args (False, fresh sent) =
      run_events W ?args (sync_events r) (False, fresh sent)"
    using assms by (simp add: settle_state_def)
  show ?thesis
    by (simp add: framework_invocation_eq run run_events_wrapper_calls settle_state_wrapper_calls)
      (simp add: settled run_events_append)
qed


theorem synchronous_result_no_auto_continuation_witness:
  "completion callback_run = Returns VUndefined \<and>
   (\<exists>res. framework_invocation quiet (Handler example_handler) callback_run example_context
            False = Some res \<and>
          outcome res = Fulfilled \<and>
          wrapper_calls (snd (final res)) = [] \<and>
          after_wrapper res = at_settlement res \<and>
          continuation_calls (ctx_next example_context) (snd (final res)) = [(VUndefined, [])])"
proof -
  have returns: "completion callback_run = Returns VUndefined"
    by (simp add: callback_run_def)
  have reached: "continuation_calls (ctx_next example_context)
      (snd (final (the (framework_invocation quiet (Handler example_handler) callback_run
         example_context False)))) = [(VUndefined, [])]"
    by code_simp
  from synchronous_result_no_auto_continuation [OF returns, of quiet "Handler example_handler"
      example_context False]
  show ?thesis
    using returns reached by auto
qed

section \<open>Properties of the once-guard\<close>

lemma call_seq_fired:
  "call_seq (onceWrapped fn) cs (True, st) = (replicate (length cs) (Inr VUndefined), (True, st))"
  by (induction cs) (simp_all add: onceWrapped_def)

text \<open>
  Claim C5. The guard made by \<open>once\<close> starts with \<open>called\<close> false. Its first call
  applies \<open>fn\<close> to the \<open>this\<close> and the arguments of that call, and returns
  \<open>undefined\<close> (or throws what \<open>fn\<close> throws); a call after that returns \<open>undefined\<close>
  and changes nothing. So any sequence of one or more calls leaves the state that its
  first call alone leaves, \<open>fn\<close> applied once to the first call's \<open>this\<close> and
  arguments, and every call after the first returns \<open>undefined\<close>.
\<close>

theorem once_guard_first_call_only:
  "snd (once fn st) = (False, st) \<and>
   fst (once fn st) this arguments (False, st) =
     ((case fst (fn this arguments st) of Inl e \<Rightarrow> Inl e | Inr v \<Rightarrow> Inr VUndefined),
      (True, snd (fn this arguments st))) \<and>
   fst (once fn st) this arguments (True, st) = (Inr VUndefined, (True, st)) \<and>
   call_seq (fst (once fn st)) (c # cs) (snd (once fn st)) =
     (fst (call_seq (fst (once fn st)) [c] (snd (once fn st))) @
        replicate (length cs) (Inr VUndefined),
      snd (call_seq (fst (once fn st)) [c] (snd (once fn st)))) \<and>
   snd (call_seq (fst (once fn st)) [c] (snd (once fn st))) = (True, snd (fn (fst c) (snd c) st))"
  by (simp add: once_def onceWrapped_def call_seq_fired split_beta split: sum.split)

theorem once_guard_first_call_only_witness:
  "call_seq (fst (once recorder []))
     [(VObject 1, [VNumber 1]), (VNull, [VNumber 2]), (VUndefined, [])] (snd (once recorder [])) =
   ([Inr VUndefined, Inr VUndefined, Inr VUndefined], (True, [(VObject 1, [VNumber 1])]))"
  using once_guard_first_call_only [of recorder "[]" VUndefined "[]" "(VObject 1, [VNumber 1])"
      "[(VNull, [VNumber 2]), (VUndefined, [])]"]
  by (simp add: recorder_def once_def onceWrapped_def)

section \<open>Declared arity\<close>

text \<open>
  Claim C6. The function made by \<open>wrap\<close> reports length 4 when the handler's length
  is 4 and length 3 otherwise; the function made by \<open>wrapParam\<close> reports length 5
  whatever the handler's length.
\<close>

theorem wrapped_arity:
  "fn_length (wrap h) = (if fn_length h = 4 then 4 else 3) \<and> fn_length (wrapParam h) = 5"
  by (simp add: wrap_def wrapParam_def)

theorem wrapped_arity_witness:
  "fn_length (wrap example_error_handler) = 4 \<and> fn_length (wrap example_handler) = 3 \<and>
   fn_length (wrapParam example_handler) = 5"
  using wrapped_arity [of example_error_handler] wrapped_arity [of example_handler]
  by (simp add: example_error_handler_def example_handler_def)

section \<open>Properties of the augmenter\<close>

lemma indexOf_None: "indexOf x xs = None \<longleftrightarrow> x \<notin> set xs"
  by (induction xs) (auto split: option.splits)

lemma splice1_remove1: "indexOf x xs = Some i \<Longrightarrow> splice1 i xs = remove1 x xs"
proof (induction xs arbitrary: i)
  case Nil
  then show ?case by simp
next
  case (Cons y ys)
  then show ?case
    by (cases i) (auto simp add: splice1_def split: if_splits option.splits)
qed

lemma indexOf_member: "x \<in> set xs \<Longrightarrow> \<exists>i. indexOf x xs = Some i"
  using indexOf_None [of x xs] by (cases "indexOf x xs") auto

lemma set_property_simps [simp]:
  "objects (set_property a name v h) = (objects h)(a := (objects h a)(name \<mapsto> v))"
  "arrays (set_property a name v h) = arrays h"
  by (simp_all add: set_property_def)

lemma store_names_simps [simp]:
  "objects (store_names methods names h) = objects h"
  "arrays (store_names None names h) = arrays h"
  "arrays (store_names (Some m) names h) = (arrays h)(m := names)"
  by (simp_all add: store_names_def split: option.split)

lemma install_methods_arrays [simp]: "arrays (install_methods app methods h) = arrays h"
  by (induction methods arbitrary: h) simp_all

lemma install_methods_objects:
  "objects (install_methods app methods h) b name =
     (if b = app then (objects h app ++ generated_methods app methods) name
      else objects h b name)"
  by (induction methods arbitrary: h) (auto simp add: map_add_def split: option.split)

lemma method_names_set_property [simp]:
  "method_names (set_property a name v h) methods = method_names h methods"
  by (simp add: method_names_def split: option.split)

lemma addAsync_objects:
  "objects (snd (addAsync app methods h)) b name =
     (if b = app then (objects h app ++ augmentation app (method_names h methods)) name
      else objects h b name)"
  by (cases "indexOf ''param'' (method_names h methods)")
    (auto simp add: addAsync_def augmentation_def Let_def install_methods_objects map_add_def
      split: option.split)

lemma addAsync_returns [simp]: "fst (addAsync app methods h) = app"
  by (simp add: addAsync_def Let_def split: option.split)

lemma addAsync_arrays_absent:
  "''param'' \<notin> set (method_names h methods) \<Longrightarrow> arrays (snd (addAsync app methods h)) = arrays h"
  by (simp add: addAsync_def Let_def indexOf_None [symmetric])

lemma addAsync_arrays_present:
  assumes "''param'' \<in> set (method_names h methods)"
  shows "arrays (snd (addAsync app methods h)) =
     arrays (store_names methods (remove1 ''param'' (method_names h methods)) h)"
proof -
  from indexOf_member [OF assms] obtain i where i: "indexOf ''param'' (method_names h methods) = Some i"
    by blast
  then show ?thesis
    by (cases methods) (simp_all add: addAsync_def Let_def splice1_remove1)
qed


lemma addAsync_frame: "b \<noteq> app \<Longrightarrow> objects (snd (addAsync app methods h)) b = objects h b"
  by (rule ext) (simp add: addAsync_objects)

lemma addAsync_objects_app:
  "objects (snd (addAsync app methods h)) app =
     objects h app ++ augmentation app (method_names h methods)"
  by (rule ext) (simp add: addAsync_objects)

lemma callable_objects: "objects h = objects h' \<Longrightarrow> callable h = callable h'"
  by (intro ext) (simp add: callable_def)

lemma call_property_objects:
  assumes "objects h = objects h'"
  shows "call_property h this name arguments = call_property h' this name arguments"
proof -
  from assms have same: "callable h = callable h'"
    by (rule callable_objects)
  have "methodAsync h a m xs = methodAsync h' a m xs" for a m xs
    by (simp add: methodAsync_def same split: sum.split)
  moreover have "paramAsync h a p callback = paramAsync h' a p callback" for a p callback
    by (simp add: paramAsync_def same)
  moreover have "routeAsync h a xs = routeAsync h' a xs" for a xs
    by (simp add: routeAsync_def assms)
  ultimately show ?thesis
    by (simp add: call_property_def assms
        split: option.split val.split code.split list.split)
qed

lemma remove1_still_member: "x \<in> set (remove1 x xs) \<longleftrightarrow> 2 \<le> count_list xs x"
proof (induction xs)
  case Nil
  then show ?case by simp
next
  case (Cons y ys)
  show ?case
  proof (cases "x = y")
    case True
    have "x \<in> set ys \<longleftrightarrow> count_list ys x \<noteq> 0"
      by (simp add: count_list_0_iff)
    with True show ?thesis by auto
  next
    case False
    with Cons.IH show ?thesis by auto
  qed
qed

lemma remove1_others: "filter (\<lambda>y. y \<noteq> x) (remove1 x xs) = filter (\<lambda>y. y \<noteq> x) xs"
  by (induction xs) auto

lemma remove1_last_occurrence:
  "count_list xs x \<le> 1 \<Longrightarrow> x \<notin> set (remove1 x xs)"
  by (induction xs) (auto simp add: count_list_0_iff)

lemma method_names_after:
  "method_names (snd (addAsync app methods h)) methods =
     (case methods of
        None \<Rightarrow> default_methods
      | Some m \<Rightarrow> remove1 ''param'' (arrays h m))"
proof (cases methods)
  case None
  then show ?thesis by (simp add: method_names_def)
next
  case (Some m)
  show ?thesis
  proof (cases "''param'' \<in> set (arrays h m)")
    case True
    with Some show ?thesis
      by (simp add: method_names_def addAsync_arrays_present)
  next
    case False
    with Some show ?thesis
      by (simp add: method_names_def addAsync_arrays_absent remove1_idem)
  qed
qed

lemma augmentation_again:
  "((t ++ augmentation app names) ++ augmentation app names) name =
     (t ++ augmentation app names) name"
  by (simp add: map_add_def split: option.split)

lemma augmentation_remaining:
  assumes "count_list names ''param'' \<le> 1"
  shows "((t ++ augmentation app names) ++ augmentation app (remove1 ''param'' names)) name =
     (t ++ augmentation app names) name"
proof (cases "indexOf ''param'' names")
  case None
  then have "remove1 ''param'' names = names"
    by (simp add: indexOf_None remove1_idem)
  then show ?thesis
    by (simp add: augmentation_again)
next
  case (Some i)
  from assms have "''param'' \<notin> set (remove1 ''param'' names)"
    by (rule remove1_last_occurrence)
  then have "indexOf ''param'' (remove1 ''param'' names) = None"
    by (simp add: indexOf_None)
  with Some show ?thesis
    by (auto simp add: augmentation_def splice1_remove1 map_add_def split: option.split)
qed

text \<open>
  Claim C8, amended. \<open>addAsync\<close> returns the object it was given and writes no other
  object. Called again on the augmented object with the same method names (the default
  both times, or arrays that hold the same names at their calls), or with the same
  array when that array named \<open>param\<close> at most once, it leaves every property of
  every object as the first call left it, so every method call behaves as after the
  first call.
\<close>

theorem addAsync_idempotent:
  assumes "method_names (snd (addAsync app methods h)) methods' = method_names h methods \<or>
           methods' = methods \<and> count_list (method_names h methods) ''param'' \<le> 1"
  shows "fst (addAsync app methods h) = app \<and>
         fst (addAsync app methods' (snd (addAsync app methods h))) = app \<and>
         (\<forall>b. b \<noteq> app \<longrightarrow> objects (snd (addAsync app methods h)) b = objects h b) \<and>
         objects (snd (addAsync app methods' (snd (addAsync app methods h)))) =
           objects (snd (addAsync app methods h)) \<and>
         (\<forall>this name arguments.
            call_property (snd (addAsync app methods' (snd (addAsync app methods h))))
              this name arguments =
            call_property (snd (addAsync app methods h)) this name arguments)"
proof -
  let ?h1 = "snd (addAsync app methods h)"
  let ?h2 = "snd (addAsync app methods' ?h1)"
  let ?names = "method_names h methods"
  let ?names' = "method_names ?h1 methods'"
  have again: "?names' = ?names \<or> ?names' = remove1 ''param'' ?names \<and> count_list ?names ''param'' \<le> 1"
  proof (cases "?names' = ?names")
    case True
    then show ?thesis ..
  next
    case False
    with assms have same: "methods' = methods" and once: "count_list ?names ''param'' \<le> 1"
      by auto
    from False same obtain m where m: "methods = Some m"
      by (cases methods) (auto simp add: method_names_def)
    with same have "?names' = remove1 ''param'' ?names"
      by (simp add: method_names_after) (simp add: method_names_def)
    with once show ?thesis by simp
  qed
  have "objects ?h2 b name = objects ?h1 b name" for b name
  proof (cases "b = app")
    case False
    then show ?thesis by (simp add: addAsync_objects)
  next
    case True
    from again show ?thesis
    proof
      assume "?names' = ?names"
      with True show ?thesis
        using augmentation_again [of "objects h app" app ?names name]
        by (simp add: addAsync_objects addAsync_objects_app)
    next
      assume "?names' = remove1 ''param'' ?names \<and> count_list ?names ''param'' \<le> 1"
      with True show ?thesis
        using augmentation_remaining [of ?names "objects h app" app name]
        by (simp add: addAsync_objects addAsync_objects_app)
    qed
  qed
  then have same_objects: "objects ?h2 = objects ?h1"
    by (intro ext)
  then have "call_property ?h2 this name arguments = call_property ?h1 this name arguments"
    for this name arguments
    by (rule call_property_objects)
  with same_objects show ?thesis
    by (simp add: addAsync_frame)
qed

theorem addAsync_idempotent_witness:
  "method_names (snd (addAsync 1 None example_heap)) None = method_names example_heap None \<and>
   count_list (method_names example_heap (Some 0)) ''param'' \<le> 1 \<and>
   call_property (snd (addAsync 1 None (snd (addAsync 1 None example_heap)))) 1 ''getAsync''
       [VStr ''/'', VFunction example_handler] =
     Forwarded 1 ''get'' [VStr ''/'', VFunction (wrap example_handler)] \<and>
   call_property (snd (addAsync 1 (Some 0) (snd (addAsync 1 (Some 0) example_heap)))) 1
       ''paramAsync'' [VStr ''id'', VFunction example_handler] =
     Forwarded 1 ''param'' [VStr ''id'', VFunction (wrapParam example_handler)]"
proof -
  have names: "method_names (snd (addAsync 1 None example_heap)) None =
      method_names example_heap None"
    by (simp add: method_names_def)
  have once: "count_list (method_names example_heap (Some 0)) ''param'' \<le> 1"
    by (simp add: method_names_def example_heap_def)
  have single: "call_property (snd (addAsync 1 None example_heap)) 1 ''getAsync''
       [VStr ''/'', VFunction example_handler] =
     Forwarded 1 ''get'' [VStr ''/'', VFunction (wrap example_handler)]"
    by code_simp
  have single': "call_property (snd (addAsync 1 (Some 0) example_heap)) 1 ''paramAsync''
       [VStr ''id'', VFunction example_handler] =
     Forwarded 1 ''param'' [VStr ''id'', VFunction (wrapParam example_handler)]"
    by code_simp
  from addAsync_idempotent [of 1 None example_heap None, OF disjI1, OF names]
    addAsync_idempotent [of 1 "Some 0" example_heap "Some 0", OF disjI2, OF conjI, OF refl once]
  show ?thesis
    using names once single single' by simp
qed

text \<open>
  Claim C8 as stated fails when the same array, naming \<open>param\<close> twice, is passed
  both times. The first call removes one \<open>param\<close> and the loop then overwrites the
  dedicated \<open>paramAsync\<close> with the generic method, which wraps with \<open>wrap\<close>; the
  second call finds the other \<open>param\<close>, removes it and leaves the dedicated
  \<open>paramAsync\<close>, which wraps with \<open>wrapParam\<close>.
\<close>

theorem addAsync_twice_differs:
  "call_property (snd (addAsync 1 (Some 0) duplicate_heap)) 1 ''paramAsync''
       [VStr ''id'', VFunction example_handler] =
     Forwarded 1 ''param'' [VStr ''id'', VFunction (wrap example_handler)] \<and>
   call_property (snd (addAsync 1 (Some 0) (snd (addAsync 1 (Some 0) duplicate_heap)))) 1
       ''paramAsync'' [VStr ''id'', VFunction example_handler] =
     Forwarded 1 ''param'' [VStr ''id'', VFunction (wrapParam example_handler)]"
proof
  show "call_property (snd (addAsync 1 (Some 0) duplicate_heap)) 1 ''paramAsync''
       [VStr ''id'', VFunction example_handler] =
     Forwarded 1 ''param'' [VStr ''id'', VFunction (wrap example_handler)]"
    by code_simp
  show "call_property (snd (addAsync 1 (Some 0) (snd (addAsync 1 (Some 0) duplicate_heap)))) 1
       ''paramAsync'' [VStr ''id'', VFunction example_handler] =
     Forwarded 1 ''param'' [VStr ''id'', VFunction (wrapParam example_handler)]"
    by code_simp
qed

lemma generated_methods_lookup:
  "generated_methods app methods (method @ ''Async'') =
     (if method \<in> set methods then Some (methodAsync_fn app method) else None)"
  by (induction methods) (auto simp add: map_add_def split: option.split)

lemma generic_installed:
  assumes "method \<in> set (method_names h methods)" and "method \<noteq> ''param''"
  shows "objects (snd (addAsync app methods h)) app (method @ ''Async'') =
     Some (methodAsync_fn app method)"
proof (cases "indexOf ''param'' (method_names h methods)")
  case None
  with assms show ?thesis
    by (simp add: addAsync_objects augmentation_def map_add_def generated_methods_lookup)
next
  case (Some i)
  from assms have "method \<in> set (remove1 ''param'' (method_names h methods))"
    by simp
  with Some show ?thesis
    by (simp add: addAsync_objects augmentation_def map_add_def generated_methods_lookup
        splice1_remove1)
qed

lemma param_installed:
  assumes "''param'' \<in> set (method_names h methods)"
  shows "objects (snd (addAsync app methods h)) app ''paramAsync'' =
     Some (if 2 \<le> count_list (method_names h methods) ''param''
           then methodAsync_fn app ''param'' else paramAsync_fn app)"
proof -
  from indexOf_member [OF assms] obtain i
    where i: "indexOf ''param'' (method_names h methods) = Some i"
    by blast
  have "generated_methods app (remove1 ''param'' (method_names h methods)) (''param'' @ ''Async'')
      = (if ''param'' \<in> set (remove1 ''param'' (method_names h methods))
         then Some (methodAsync_fn app ''param'') else None)"
    by (rule generated_methods_lookup)
  with i show ?thesis
    by (simp add: addAsync_objects augmentation_def map_add_def splice1_remove1
        remove1_still_member)
qed


lemma methodAsync_missing:
  "\<not> callable h app method \<Longrightarrow>
   methodAsync h app method arguments =
     (case wrapArgs arguments of
        Inl e \<Rightarrow> Raised e
      | Inr args \<Rightarrow> Raised (not_a_function ''app[method]''))"
  by (simp add: methodAsync_def split: sum.split)

text \<open>
  Claim C9. \<open>addAsync\<close> does not look at what the object offers: for every name in
  \<open>methods\<close> it returns the object with the generated method installed. When the
  object has no callable property of that name, every call of the generated method
  raises: the \<open>TypeError\<close> of calling what is no function when the arguments pass the
  classifier (for \<open>paramAsync\<close>, whatever the arguments, when \<open>param\<close> was named
  once).
\<close>

theorem missing_method_fails_when_called:
  assumes "method \<in> set (method_names h methods)"
    and "\<not> callable (snd (addAsync app methods h)) app method"
  shows "fst (addAsync app methods h) = app \<and>
         (\<exists>f. objects (snd (addAsync app methods h)) app (method @ ''Async'') =
                 Some (VFunction f)) \<and>
         (method \<noteq> ''param'' \<longrightarrow>
            (\<forall>arguments. \<exists>e.
               call_property (snd (addAsync app methods h)) app (method @ ''Async'') arguments =
                 Raised e) \<and>
            (\<forall>arguments args. wrapArgs arguments = Inr args \<longrightarrow>
               call_property (snd (addAsync app methods h)) app (method @ ''Async'') arguments =
                 Raised (not_a_function ''app[method]''))) \<and>
         (method = ''param'' \<longrightarrow>
            (\<forall>name callback rest. \<exists>e.
               call_property (snd (addAsync app methods h)) app ''paramAsync''
                 (name # VFunction callback # rest) = Raised e) \<and>
            (count_list (method_names h methods) ''param'' = 1 \<longrightarrow>
               (\<forall>name callback rest.
                  call_property (snd (addAsync app methods h)) app ''paramAsync''
                    (name # VFunction callback # rest) = Raised (not_a_function ''app.param''))))"
proof (cases "method = ''param''")
  case False
  let ?h1 = "snd (addAsync app methods h)"
  from assms(1) False
  have installed: "objects ?h1 app (method @ ''Async'') = Some (methodAsync_fn app method)"
    by (rule generic_installed)
  then have call: "call_property ?h1 app (method @ ''Async'') arguments =
      (case wrapArgs arguments of
         Inl e \<Rightarrow> Raised e
       | Inr args \<Rightarrow> Raised (not_a_function ''app[method]''))" for arguments
    using assms(2) by (simp add: call_property_def methodAsync_fn_def methodAsync_missing)
  have "\<exists>e. call_property ?h1 app (method @ ''Async'') arguments = Raised e" for arguments
    unfolding call by (cases "wrapArgs arguments") simp_all
  with False installed call show ?thesis
    by (simp add: methodAsync_fn_def)
next
  case True
  let ?h1 = "snd (addAsync app methods h)"
  from assms(1) True
  have installed: "objects ?h1 app ''paramAsync'' =
      Some (if 2 \<le> count_list (method_names h methods) ''param''
            then methodAsync_fn app ''param'' else paramAsync_fn app)"
    by (simp add: param_installed)
  from assms(2) True have missing: "\<not> callable ?h1 app ''param''"
    by simp
  have raised: "\<exists>e. call_property ?h1 app ''paramAsync'' (name # VFunction callback # rest) =
      Raised e" for name callback rest
  proof (cases "2 \<le> count_list (method_names h methods) ''param''")
    case True
    with installed missing show ?thesis
      by (cases "wrapArgs (name # VFunction callback # rest)")
        (simp_all add: call_property_def methodAsync_fn_def methodAsync_missing)
  next
    case False
    with installed missing show ?thesis
      by (simp add: call_property_def paramAsync_fn_def paramAsync_def)
  qed
  have exact: "call_property ?h1 app ''paramAsync'' (name # VFunction callback # rest) =
      Raised (not_a_function ''app.param'')"
    if "count_list (method_names h methods) ''param'' = 1" for name callback rest
    using that installed missing
    by (simp add: call_property_def paramAsync_fn_def paramAsync_def)
  from True installed raised exact show ?thesis
    by (simp add: methodAsync_fn_def paramAsync_fn_def)
qed

theorem missing_method_fails_when_called_witness:
  "''frobnicate'' \<in> set (method_names example_heap (Some 0)) \<and>
   \<not> callable (snd (addAsync 1 (Some 0) example_heap)) 1 ''frobnicate'' \<and>
   fst (addAsync 1 (Some 0) example_heap) = 1 \<and>
   call_property (snd (addAsync 1 (Some 0) example_heap)) 1 ''frobnicateAsync''
       [VStr ''/x'', VFunction example_handler] = Raised (not_a_function ''app[method]'')"
proof -
  have named: "''frobnicate'' \<in> set (method_names example_heap (Some 0))"
    by (simp add: method_names_def example_heap_def)
  have missing: "\<not> callable (snd (addAsync 1 (Some 0) example_heap)) 1 ''frobnicate''"
    by code_simp
  have admissible: "wrapArgs [VStr ''/x'', VFunction example_handler] =
      Inr [VStr ''/x'', VFunction (wrap example_handler)]"
    by simp
  from missing_method_fails_when_called [OF named missing] admissible
  show ?thesis
    using named missing by auto
qed

text \<open>
  Claim C10, amended. When the caller's array holds \<open>param\<close>, \<open>addAsync\<close> removes its
  first occurrence from that array: the array is one element shorter, its other entries
  stay as they were, in order, no other array changes, and the array still holds
  \<open>param\<close> afterwards exactly when it held it at least twice.
\<close>

theorem caller_array_loses_first_param:
  assumes "''param'' \<in> set (arrays h m)"
  shows "arrays (snd (addAsync app (Some m) h)) m = remove1 ''param'' (arrays h m) \<and>
         Suc (length (arrays (snd (addAsync app (Some m) h)) m)) = length (arrays h m) \<and>
         (''param'' \<in> set (arrays (snd (addAsync app (Some m) h)) m) \<longleftrightarrow>
            2 \<le> count_list (arrays h m) ''param'') \<and>
         filter (\<lambda>name. name \<noteq> ''param'') (arrays (snd (addAsync app (Some m) h)) m) =
           filter (\<lambda>name. name \<noteq> ''param'') (arrays h m) \<and>
         (\<forall>b. b \<noteq> m \<longrightarrow> arrays (snd (addAsync app (Some m) h)) b = arrays h b)"
proof -
  from assms have "''param'' \<in> set (method_names h (Some m))"
    by (simp add: method_names_def)
  then have after: "arrays (snd (addAsync app (Some m) h)) =
      (arrays h)(m := remove1 ''param'' (arrays h m))"
    by (simp add: addAsync_arrays_present) (simp add: method_names_def)
  from assms have "Suc (length (remove1 ''param'' (arrays h m))) = length (arrays h m)"
    by (simp add: length_remove1) (cases "arrays h m", simp_all)
  then show ?thesis
    by (simp add: after remove1_still_member remove1_others)
qed

theorem caller_array_loses_first_param_witness:
  "''param'' \<in> set (arrays example_heap 0) \<and>
   arrays (snd (addAsync 1 (Some 0) example_heap)) 0 = [''get'', ''frobnicate''] \<and>
   ''param'' \<notin> set (arrays (snd (addAsync 1 (Some 0) example_heap)) 0)"
proof -
  have present: "''param'' \<in> set (arrays example_heap 0)"
    by (simp add: example_heap_def)
  from caller_array_loses_first_param [OF present, of 1]
  show ?thesis
    using present by (simp add: example_heap_def)
qed

text \<open>
  Claim C10 as stated fails on an array that names \<open>param\<close> twice: one occurrence
  is left after the call.
\<close>

theorem caller_array_still_holds_param:
  "''param'' \<in> set (arrays duplicate_heap 0) \<and>
   ''param'' \<in> set (arrays (snd (addAsync 1 (Some 0) duplicate_heap)) 0)"
  by code_simp

section \<open>Properties of the argument classifier\<close>









end
